theory Spec2Isabelle
  imports Main "HOL-Library.Word"
begin

unbundle bit_operations_syntax

section \<open>Bytes and strings\<close>

text \<open>
  A \<^verbatim>\<open>std::string\<close> is a sequence of 8-bit characters, and so is a \<^verbatim>\<open>byte\<close> array
  (\<^verbatim>\<open>CryptoPP::byte\<close> is \<^verbatim>\<open>unsigned char\<close>). Both are modelled as \<^typ>\<open>string\<close>, a list
  of 8-bit \<^typ>\<open>char\<close>; the numeric value of a byte is \<^term>\<open>of_char c :: nat\<close>.
\<close>

definition NUL :: char where
  "NUL = CHR 0x00"

text \<open>
  \<^verbatim>\<open>s.c_str()\<close> handed to a consumer of C strings: the consumer reads up to the first NUL.
\<close>

definition c_str :: "string \<Rightarrow> string" where
  "c_str s = takeWhile (\<lambda>c. c \<noteq> NUL) s"

section \<open>PayloadEncoder: \<^verbatim>\<open>getBase64\<close>\<close>

subsection \<open>The library encoder\<close>

text \<open>
  Modelled from the spec: the spec names the transform base64; the class
  \<^verbatim>\<open>CryptoPP::Base64Encoder\<close> that \<^verbatim>\<open>getBase64\<close> instantiates is library code
  and not part of the sources. It is modelled as the standard base64 of RFC 4648:
  three input bytes become four characters of the alphabet below, most significant
  bits first, and a final group of one or two bytes is padded with \<^verbatim>\<open>=\<close>.
\<close>

definition b64_alphabet :: string where
  "b64_alphabet =
     ''ABCDEFGHIJKLMNOPQRSTUVWXYZabcdefghijklmnopqrstuvwxyz0123456789+/''"

definition b64_char :: "nat \<Rightarrow> char" where
  "b64_char i = b64_alphabet ! (i mod 64)"

definition b64_pad :: char where
  "b64_pad = CHR ''=''"

fun b64_groups :: "string \<Rightarrow> string" where
  "b64_groups [] = []"
| "b64_groups [a] =
     (let x = (of_char a :: nat) in
      [b64_char (x div 4), b64_char ((x mod 4) * 16), b64_pad, b64_pad])"
| "b64_groups [a, b] =
     (let x = (of_char a :: nat); y = (of_char b :: nat) in
      [b64_char (x div 4), b64_char ((x mod 4) * 16 + y div 16),
       b64_char ((y mod 16) * 4), b64_pad])"
| "b64_groups (a # b # c # rest) =
     (let x = (of_char a :: nat); y = (of_char b :: nat); z = (of_char c :: nat) in
      [b64_char (x div 4), b64_char ((x mod 4) * 16 + y div 16),
       b64_char ((y mod 16) * 4 + z div 64), b64_char (z mod 64)]) @ b64_groups rest"

text \<open>
  The encoder's line breaking: with \<^verbatim>\<open>insertLineBreaks\<close> the output passes through a
  grouper that counts the characters of the current line and puts a newline separator
  before the character that would exceed \<^verbatim>\<open>maxLineLength\<close>, and a newline terminator
  at the end of the message. Without the flag the grouper is not configured and the
  characters pass unchanged.
\<close>

definition newline :: char where
  "newline = CHR 0x0A"

fun grouper :: "nat \<Rightarrow> nat \<Rightarrow> string \<Rightarrow> string" where
  "grouper n k [] = []"
| "grouper n k (c # cs) =
     (if k = n then newline # c # grouper n 1 cs else c # grouper n (Suc k) cs)"

definition Base64Encoder :: "bool \<Rightarrow> nat \<Rightarrow> string \<Rightarrow> string" where
  "Base64Encoder insertLineBreaks maxLineLength input =
     (if insertLineBreaks
      then grouper maxLineLength 0 (b64_groups input) @ [newline]
      else b64_groups input)"

subsection \<open>The reference decoder\<close>

text \<open>
  Modelled from the spec: \<^verbatim>\<open>decodeBase64\<close> of the round-trip property. The repository
  never decodes base64; this is the strict decoder of RFC 4648, which accepts groups of
  four alphabet characters and padding in the last group only.
\<close>

fun idx_of :: "'a \<Rightarrow> 'a list \<Rightarrow> nat option" where
  "idx_of x [] = None"
| "idx_of x (y # ys) = (if x = y then Some 0 else map_option Suc (idx_of x ys))"

definition b64_index :: "char \<Rightarrow> nat option" where
  "b64_index c = idx_of c b64_alphabet"

definition b64_quad :: "char \<Rightarrow> char \<Rightarrow> char \<Rightarrow> char \<Rightarrow> string option" where
  "b64_quad w x y z =
     (case (b64_index w, b64_index x, b64_index y, b64_index z) of
        (Some p, Some q, Some r, Some s) \<Rightarrow>
          Some [char_of (p * 4 + q div 16), char_of ((q mod 16) * 16 + r div 4),
                char_of ((r mod 4) * 64 + s)]
      | _ \<Rightarrow> None)"

definition b64_last :: "char \<Rightarrow> char \<Rightarrow> char \<Rightarrow> char \<Rightarrow> string option" where
  "b64_last w x y z =
     (if y = b64_pad \<and> z = b64_pad then
        (case (b64_index w, b64_index x) of
           (Some p, Some q) \<Rightarrow>
             if q mod 16 = 0 then Some [char_of (p * 4 + q div 16)] else None
         | _ \<Rightarrow> None)
      else if z = b64_pad then
        (case (b64_index w, b64_index x, b64_index y) of
           (Some p, Some q, Some r) \<Rightarrow>
             if r mod 4 = 0
             then Some [char_of (p * 4 + q div 16), char_of ((q mod 16) * 16 + r div 4)]
             else None
         | _ \<Rightarrow> None)
      else b64_quad w x y z)"

fun decodeBase64 :: "string \<Rightarrow> string option" where
  "decodeBase64 [] = Some []"
| "decodeBase64 [w, x, y, z] = b64_last w x y z"
| "decodeBase64 (w # x # y # z # rest) =
     (case b64_quad w x y z of
        None \<Rightarrow> None
      | Some bs \<Rightarrow> map_option (\<lambda>r. bs @ r) (decodeBase64 rest))"
| "decodeBase64 _ = None"

subsection \<open>\<^verbatim>\<open>getBase64\<close>\<close>

text \<open>
  \<^verbatim>\<open>
  static int getBase64(const string &content, string &encoded)
  {
      byte buffer[1024] = {};
      for (int i = 0; i < content.length(); ++i)
      {
          buffer[i] = content[i];
      };
      StringSource ss(buffer, content.length(), true,
                      new Base64Encoder(new StringSink(encoded), false));
      return 0;
  };
  \<close>
  The buffer is a local array of 1024 bytes and the loop has no bound but the length of
  the content. A store to \<^verbatim>\<open>buffer[i]\<close> with \<^verbatim>\<open>i\<close> beyond the array is undefined
  behaviour in C++; the model makes it the value \<open>StackBufferOverrun i\<close>, after which
  nothing more is said about the call. \<^verbatim>\<open>StringSink\<close> appends to \<^verbatim>\<open>encoded\<close>.
\<close>

datatype fault = StackBufferOverrun nat

definition buffer_size :: nat where
  "buffer_size = 1024"

function copy_loop :: "nat \<Rightarrow> string \<Rightarrow> string \<Rightarrow> fault + string" where
  "copy_loop i content buffer =
     (if i < length content
      then (if i < length buffer
            then copy_loop (Suc i) content (buffer[i := content ! i])
            else Inl (StackBufferOverrun i))
      else Inr buffer)"
  by pat_completeness auto
termination
  by (relation "measure (\<lambda>(i, content, buffer). length content - i)") auto

declare copy_loop.simps [simp del]

definition getBase64 :: "string \<Rightarrow> string \<Rightarrow> fault + (int \<times> string)" where
  "getBase64 content encoded =
     (case copy_loop 0 content (replicate buffer_size NUL) of
        Inl f \<Rightarrow> Inl f
      | Inr buffer \<Rightarrow>
          Inr (0, encoded @ Base64Encoder False 72 (take (length content) buffer)))"

section \<open>RequestSigner: \<^verbatim>\<open>getHmacSha384\<close>\<close>

subsection \<open>The library hash\<close>

text \<open>
  Modelled from the spec: the spec asks for a keyed-hash message authentication code with
  a 384-bit hash; the classes \<^verbatim>\<open>CryptoPP::SHA384\<close>, \<^verbatim>\<open>CryptoPP::HMAC\<close> and
  \<^verbatim>\<open>CryptoPP::HexEncoder\<close> that \<^verbatim>\<open>getHmacSha384\<close> instantiates are library
  code and not part of the sources. They are modelled as SHA-384 of FIPS 180-4, HMAC of
  RFC 2104 and the encoder's default upper-case hexadecimal.
\<close>

type_synonym word64 = "64 word"

definition rotr :: "nat \<Rightarrow> word64 \<Rightarrow> word64" where
  "rotr n x = drop_bit n x OR push_bit (64 - n) x"

definition Ch :: "word64 \<Rightarrow> word64 \<Rightarrow> word64 \<Rightarrow> word64" where
  "Ch x y z = (x AND y) XOR (NOT x AND z)"

definition Maj :: "word64 \<Rightarrow> word64 \<Rightarrow> word64 \<Rightarrow> word64" where
  "Maj x y z = (x AND y) XOR (x AND z) XOR (y AND z)"

definition Sigma0 :: "word64 \<Rightarrow> word64" where
  "Sigma0 x = rotr 28 x XOR rotr 34 x XOR rotr 39 x"

definition Sigma1 :: "word64 \<Rightarrow> word64" where
  "Sigma1 x = rotr 14 x XOR rotr 18 x XOR rotr 41 x"

definition sigma0 :: "word64 \<Rightarrow> word64" where
  "sigma0 x = rotr 1 x XOR rotr 8 x XOR drop_bit 7 x"

definition sigma1 :: "word64 \<Rightarrow> word64" where
  "sigma1 x = rotr 19 x XOR rotr 61 x XOR drop_bit 6 x"

text \<open>
  The round constants are the first 64 bits of the fractional parts of the cube roots of
  the first eighty primes, and the initial hash value of SHA-384 is made of the first 64
  bits of the fractional parts of the square roots of the ninth to the sixteenth prime.
  \<open>iroot e n\<close> is the integer part of the \<open>e\<close>-th root of \<open>n\<close>, found bit by bit.
\<close>

fun root_bits :: "nat \<Rightarrow> nat \<Rightarrow> nat \<Rightarrow> nat \<Rightarrow> nat" where
  "root_bits e 0 n r = r"
| "root_bits e (Suc k) n r =
     (if (r + 2 ^ k) ^ e \<le> n then root_bits e k n (r + 2 ^ k) else root_bits e k n r)"

definition iroot :: "nat \<Rightarrow> nat \<Rightarrow> nat" where
  "iroot e n = root_bits e 68 n 0"

definition is_prime :: "nat \<Rightarrow> bool" where
  "is_prime p = (2 \<le> p \<and> list_all (\<lambda>d. p mod d \<noteq> 0) [2..<p])"

definition frac_cbrt :: "nat \<Rightarrow> word64" where
  "frac_cbrt p = word_of_nat (iroot 3 (p * 2 ^ 192))"

definition frac_sqrt :: "nat \<Rightarrow> word64" where
  "frac_sqrt p = word_of_nat (iroot 2 (p * 2 ^ 128))"

definition K512 :: "word64 list" where
  "K512 = map frac_cbrt (filter is_prime [2..<410])"

type_synonym hstate =
  "word64 \<times> word64 \<times> word64 \<times> word64 \<times> word64 \<times> word64 \<times> word64 \<times> word64"

definition sha384_init :: hstate where
  "sha384_init =
     (frac_sqrt 23, frac_sqrt 29, frac_sqrt 31, frac_sqrt 37,
      frac_sqrt 41, frac_sqrt 43, frac_sqrt 47, frac_sqrt 53)"

definition be_word :: "string \<Rightarrow> word64" where
  "be_word bs = foldl (\<lambda>w c. push_bit 8 w OR word_of_nat (of_char c)) 0 bs"

definition word_bytes :: "word64 \<Rightarrow> string" where
  "word_bytes w = map (\<lambda>i. char_of (unat (drop_bit (8 * (7 - i)) w))) [0..<8]"

definition sha_pad :: "string \<Rightarrow> string" where
  "sha_pad msg =
     (let l = length msg in
      msg @ [CHR 0x80] @ replicate ((239 - l mod 128) mod 128) NUL
          @ map (\<lambda>i. char_of ((8 * l) div 256 ^ (15 - i))) [0..<16])"

function chunks :: "nat \<Rightarrow> 'a list \<Rightarrow> 'a list list" where
  "chunks n xs = (if n = 0 \<or> xs = [] then [] else take n xs # chunks n (drop n xs))"
  by pat_completeness auto
termination
  by (relation "measure (\<lambda>(n, xs). length xs)") auto

declare chunks.simps [simp del]

fun schedule :: "nat \<Rightarrow> word64 list \<Rightarrow> word64 list" where
  "schedule 0 W = W"
| "schedule (Suc n) W =
     (let t = length W in
      schedule n (W @ [sigma1 (W ! (t - 2)) + W ! (t - 7) + sigma0 (W ! (t - 15)) + W ! (t - 16)]))"

fun sha_round :: "hstate \<Rightarrow> word64 \<times> word64 \<Rightarrow> hstate" where
  "sha_round (a, b, c, d, e, f, g, h) (k, w) =
     (let T1 = h + Sigma1 e + Ch e f g + k + w;
          T2 = Sigma0 a + Maj a b c
      in (T1 + T2, a, b, c, d + T1, e, f, g))"

fun hstate_add :: "hstate \<Rightarrow> hstate \<Rightarrow> hstate" where
  "hstate_add (a, b, c, d, e, f, g, h) (a', b', c', d', e', f', g', h') =
     (a + a', b + b', c + c', d + d', e + e', f + f', g + g', h + h')"

definition compress :: "hstate \<Rightarrow> string \<Rightarrow> hstate" where
  "compress H block =
     (let W = schedule 64 (map be_word (chunks 8 block))
      in hstate_add H (foldl sha_round H (zip K512 W)))"

fun sha384_output :: "hstate \<Rightarrow> string" where
  "sha384_output (a, b, c, d, e, f, g, h) = concat (map word_bytes [a, b, c, d, e, f])"

definition sha384 :: "string \<Rightarrow> string" where
  "sha384 msg = sha384_output (foldl compress sha384_init (chunks 128 (sha_pad msg)))"

definition xor_byte :: "nat \<Rightarrow> char \<Rightarrow> char" where
  "xor_byte p c = char_of ((of_char c :: nat) XOR p)"

definition hmac_block_size :: nat where
  "hmac_block_size = 128"

definition hmac_key_block :: "string \<Rightarrow> string" where
  "hmac_key_block key =
     (let k = (if hmac_block_size < length key then sha384 key else key)
      in k @ replicate (hmac_block_size - length k) NUL)"

definition HMAC_SHA384 :: "string \<Rightarrow> string \<Rightarrow> string" where
  "HMAC_SHA384 key msg =
     (let kb = hmac_key_block key
      in sha384 (map (xor_byte 0x5c) kb @ sha384 (map (xor_byte 0x36) kb @ msg)))"

definition hex_upper :: string where
  "hex_upper = ''0123456789ABCDEF''"

definition hex_lower :: string where
  "hex_lower = ''0123456789abcdef''"

definition HexEncoder :: "string \<Rightarrow> string" where
  "HexEncoder bs =
     concat (map (\<lambda>c. [hex_upper ! ((of_char c :: nat) div 16),
                         hex_upper ! ((of_char c :: nat) mod 16)]) bs)"

subsection \<open>\<^verbatim>\<open>getHmacSha384\<close>\<close>

text \<open>
  \<^verbatim>\<open>
  static int getHmacSha384(const string &key, const string &content, string &digest)
  {
      SecByteBlock byteKey((const byte*)key.data(), key.size());
      string mac;
      digest.clear();
      HMAC<SHA384> hmac(byteKey, byteKey.size());
      StringSource ss1(content, true, new HashFilter(hmac, new StringSink(mac)));
      StringSource ss2(mac, true, new HexEncoder(new StringSink(digest)));
      transform(digest.cbegin(), digest.cend(), digest.begin(), ::tolower);
      return 0;
  };
  \<close>
  \<^verbatim>\<open>::tolower\<close> is the C library's, in the default locale: the letters \<^verbatim>\<open>A\<close> to
  \<^verbatim>\<open>Z\<close> move to \<^verbatim>\<open>a\<close> to \<^verbatim>\<open>z\<close> and every other character stays.
\<close>

definition tolower :: "char \<Rightarrow> char" where
  "tolower c =
     (if (65::nat) \<le> of_char c \<and> (of_char c :: nat) \<le> 90
      then char_of ((of_char c :: nat) + 32) else c)"

definition getHmacSha384 :: "string \<Rightarrow> string \<Rightarrow> string \<Rightarrow> int \<times> string" where
  "getHmacSha384 key content digest =
     (let byteKey = key;
          mac = [] @ HMAC_SHA384 byteKey content;
          digest1 = [];
          digest2 = digest1 @ HexEncoder mac;
          digest3 = map tolower digest2
      in (0, digest3))"

section \<open>AuthenticatedRequestBuilder: \<^verbatim>\<open>DoPOSTrequest\<close>\<close>

text \<open>
  The fields of \<^verbatim>\<open>class BitfinexAPI\<close> that \<^verbatim>\<open>DoPOSTrequest\<close> reads.
  \<^verbatim>\<open>curlPOST_\<close> is the handle \<^verbatim>\<open>curl_easy_init()\<close> returned in the constructor;
  the model keeps whether it differs from the null pointer. A name cannot end with an
  underscore here, so the members are written without it.
\<close>

record BitfinexAPI =
  accessKey :: string
  secretKey :: string
  APIurl :: string
  curlPOST :: bool

text \<open>
  What \<^verbatim>\<open>DoPOSTrequest\<close> sets on the handle before \<^verbatim>\<open>curl_easy_perform\<close>.
  \<^verbatim>\<open>curl_slist_append\<close> and \<^verbatim>\<open>CURLOPT_URL\<close> take C strings.
\<close>

record curl_request =
  httpHeaders :: "string list"
  postFields :: string
  timeout :: nat
  url :: string

text \<open>\<^verbatim>\<open>enum bfxERR\<close> with the values the compiler gives its enumerators.\<close>

datatype bfxERR =
    noError | curlERR | badSymbol | badCurrency | badDepositMethod | badWalletType
  | requiredParamsMissing | wireParamsMissing | addressParamsMissing | badOrderType
  | jsonStrToUSetError

fun bfxERR_value :: "bfxERR \<Rightarrow> int" where
  "bfxERR_value noError = 0"
| "bfxERR_value curlERR = 1"
| "bfxERR_value badSymbol = 2"
| "bfxERR_value badCurrency = 3"
| "bfxERR_value badDepositMethod = 4"
| "bfxERR_value badWalletType = 5"
| "bfxERR_value requiredParamsMissing = 6"
| "bfxERR_value wireParamsMissing = 7"
| "bfxERR_value addressParamsMissing = 8"
| "bfxERR_value badOrderType = 9"
| "bfxERR_value jsonStrToUSetError = 10"

record post_outcome =
  returned :: int
  sent :: "curl_request option"
  result :: string

text \<open>
  \<^verbatim>\<open>
  int DoPOSTrequest(const string &UrlEndPoint, const string &params, string &result)
  {
      if(curlPOST_)
      {
          string url = APIurl_ + UrlEndPoint;
          string payload;
          string signature;
          getBase64(params, payload);
          getHmacSha384(secretKey_, payload, signature);
          struct curl_slist *httpHeaders = nullptr;
          httpHeaders = curl_slist_append(httpHeaders, ("X-BFX-APIKEY:" + accessKey_).c_str());
          httpHeaders = curl_slist_append(httpHeaders, ("X-BFX-PAYLOAD:" + payload).c_str());
          httpHeaders = curl_slist_append(httpHeaders, ("X-BFX-SIGNATURE:" + signature).c_str());
          ...
          curlStatusCode_ = curl_easy_perform(curlPOST_);
          ...
          return curlStatusCode_;
      }
      else
      {
          return curlERR;
      }
  };
  \<close>
  The transport is the parameter \<open>perform\<close>: from the request it gives libcurl's status
  code and the text its write callback appends to \<^verbatim>\<open>result\<close>. The value
  \<^verbatim>\<open>getBase64\<close> returns is not looked at; an overrun of its buffer ends the call.
\<close>

definition DoPOSTrequest ::
  "BitfinexAPI \<Rightarrow> (curl_request \<Rightarrow> int \<times> string) \<Rightarrow> string \<Rightarrow> string \<Rightarrow> string
     \<Rightarrow> fault + post_outcome" where
  "DoPOSTrequest api perform UrlEndPoint params result0 =
     (if curlPOST api then
        (case getBase64 params [] of
           Inl f \<Rightarrow> Inl f
         | Inr (_, payload) \<Rightarrow>
             (let signature = snd (getHmacSha384 (secretKey api) payload []);
                  req = \<lparr>httpHeaders =
                            [c_str (''X-BFX-APIKEY:'' @ accessKey api),
                             c_str (''X-BFX-PAYLOAD:'' @ payload),
                             c_str (''X-BFX-SIGNATURE:'' @ signature)],
                         postFields = [newline],
                         timeout = 30,
                         url = c_str (APIurl api @ UrlEndPoint)\<rparr>;
                  (curlStatusCode, body) = perform req
              in Inr \<lparr>returned = curlStatusCode, sent = Some req, result = result0 @ body\<rparr>))
      else Inr \<lparr>returned = bfxERR_value curlERR, sent = None, result = result0\<rparr>)"

section \<open>SchemaValidatingSetDecoder: \<^verbatim>\<open>jsonStrToUset\<close>\<close>

subsection \<open>SAX events and the library reader\<close>

text \<open>
  The events of rapidjson's handler concept that a reader with the default flags
  delivers. A floating-point number is delivered as \<open>sax_Double\<close> without its value.
\<close>

datatype sax_event =
    sax_Null | sax_Bool bool
  | sax_Int int | sax_Uint nat | sax_Int64 int | sax_Uint64 nat | sax_Double
  | sax_String string
  | sax_StartObject | sax_Key string | sax_EndObject nat
  | sax_StartArray | sax_EndArray nat

datatype ParseErrorCode =
    kParseErrorNone
  | kParseErrorDocumentEmpty
  | kParseErrorDocumentRootNotSingular
  | kParseErrorValueInvalid
  | kParseErrorObjectMissName
  | kParseErrorObjectMissColon
  | kParseErrorObjectMissCommaOrCurlyBracket
  | kParseErrorArrayMissCommaOrSquareBracket
  | kParseErrorStringUnicodeEscapeInvalidHex
  | kParseErrorStringUnicodeSurrogateInvalid
  | kParseErrorStringEscapeInvalid
  | kParseErrorStringMissQuotationMark
  | kParseErrorStringInvalidEncoding
  | kParseErrorNumberMissFraction
  | kParseErrorNumberMissExponent
  | kParseErrorTermination

text \<open>
  Modelled from the spec: the spec asks for a single-pass, token-by-token reader that
  stops at the first event its consumer rejects; \<^verbatim>\<open>rapidjson::Reader\<close> is library code
  and not part of the sources. It is modelled as a machine that reads the text one
  character at a time, keeps the open arrays and objects on a stack, hands each event to
  the handler \<open>hf\<close> and stops with \<open>kParseErrorTermination\<close> when the handler
  answers false, or with the error of the JSON grammar rule that the text breaks.
  The range check of floating-point numbers is left out.
\<close>

datatype frame = InArray nat | InObject nat

datatype strmode =
    SNormal
  | SEscape nat
  | SHex nat nat nat "nat option"
  | SLowBackslash nat nat
  | SLowU nat nat

datatype nummode = NMinus | NZero | NInt | NDot | NFrac | NExp | NExpSign | NExpDigits

datatype mode =
    MDocStart | MArrayFirst | MValue | MObjectFirst | MKey | MColon | MAfterValue
  | MLiteral string sax_event
  | MString bool string strmode
  | MNumber nat bool nat nummode

datatype 'h step = Cont mode "frame list" 'h | Stop ParseErrorCode nat 'h

definition is_ws :: "char \<Rightarrow> bool" where
  "is_ws c = (c = CHR '' '' \<or> c = CHR 0x0A \<or> c = CHR 0x0D \<or> c = CHR 0x09)"

definition is_digit :: "char \<Rightarrow> bool" where
  "is_digit c = ((48::nat) \<le> of_char c \<and> (of_char c :: nat) \<le> 57)"

definition digit_val :: "char \<Rightarrow> nat" where
  "digit_val c = of_char c - 48"

definition hex_val :: "char \<Rightarrow> nat option" where
  "hex_val c =
     (let n = (of_char c :: nat) in
      if 48 \<le> n \<and> n \<le> 57 then Some (n - 48)
      else if 65 \<le> n \<and> n \<le> 70 then Some (n - 55)
      else if 97 \<le> n \<and> n \<le> 102 then Some (n - 87)
      else None)"

definition escape_char :: "char \<Rightarrow> char option" where
  "escape_char c =
     (if c = CHR 0x22 then Some (CHR 0x22)
      else if c = CHR ''/'' then Some (CHR ''/'')
      else if c = CHR 0x5C then Some (CHR 0x5C)
      else if c = CHR ''b'' then Some (CHR 0x08)
      else if c = CHR ''f'' then Some (CHR 0x0C)
      else if c = CHR ''n'' then Some (CHR 0x0A)
      else if c = CHR ''r'' then Some (CHR 0x0D)
      else if c = CHR ''t'' then Some (CHR 0x09)
      else None)"

definition utf8_encode :: "nat \<Rightarrow> string" where
  "utf8_encode cp =
     (if cp \<le> 0x7F then [char_of cp]
      else if cp \<le> 0x7FF then
        [char_of (0xC0 + cp div 64), char_of (0x80 + cp mod 64)]
      else if cp \<le> 0xFFFF then
        [char_of (0xE0 + cp div 4096), char_of (0x80 + (cp div 64) mod 64),
         char_of (0x80 + cp mod 64)]
      else
        [char_of (0xF0 + cp div 262144), char_of (0x80 + (cp div 4096) mod 64),
         char_of (0x80 + (cp div 64) mod 64), char_of (0x80 + cp mod 64)])"

fun bump :: "frame list \<Rightarrow> frame list" where
  "bump [] = []"
| "bump (InArray n # fs) = InArray (Suc n) # fs"
| "bump (InObject n # fs) = InObject (Suc n) # fs"

text \<open>A value is complete: its event goes to the handler; \<open>off\<close> is the offset reported
  when the handler rejects it.\<close>

definition value_event ::
  "('h \<Rightarrow> sax_event \<Rightarrow> bool \<times> 'h) \<Rightarrow> nat \<Rightarrow> frame list \<Rightarrow> 'h \<Rightarrow> sax_event \<Rightarrow> 'h step" where
  "value_event hf off stack h ev =
     (case hf h ev of
        (True, h') \<Rightarrow> Cont MAfterValue (bump stack) h'
      | (False, h') \<Rightarrow> Stop kParseErrorTermination off h')"

definition close_event ::
  "('h \<Rightarrow> sax_event \<Rightarrow> bool \<times> 'h) \<Rightarrow> nat \<Rightarrow> frame list \<Rightarrow> 'h \<Rightarrow> 'h step" where
  "close_event hf pos stack h =
     (case stack of
        [] \<Rightarrow> Stop kParseErrorValueInvalid pos h
      | InArray n # fs \<Rightarrow> value_event hf (Suc pos) fs h (sax_EndArray n)
      | InObject n # fs \<Rightarrow> value_event hf (Suc pos) fs h (sax_EndObject n))"

definition value_start ::
  "('h \<Rightarrow> sax_event \<Rightarrow> bool \<times> 'h) \<Rightarrow> nat \<Rightarrow> frame list \<Rightarrow> 'h \<Rightarrow> char \<Rightarrow> 'h step" where
  "value_start hf pos stack h c =
     (if c = CHR ''n'' then Cont (MLiteral ''ull'' sax_Null) stack h
      else if c = CHR ''t'' then Cont (MLiteral ''rue'' (sax_Bool True)) stack h
      else if c = CHR ''f'' then Cont (MLiteral ''alse'' (sax_Bool False)) stack h
      else if c = CHR 0x22 then Cont (MString False [] SNormal) stack h
      else if c = CHR ''{'' then
        (case hf h sax_StartObject of
           (True, h') \<Rightarrow> Cont MObjectFirst (InObject 0 # stack) h'
         | (False, h') \<Rightarrow> Stop kParseErrorTermination (Suc pos) h')
      else if c = CHR ''['' then
        (case hf h sax_StartArray of
           (True, h') \<Rightarrow> Cont MArrayFirst (InArray 0 # stack) h'
         | (False, h') \<Rightarrow> Stop kParseErrorTermination (Suc pos) h')
      else if c = CHR ''-'' then Cont (MNumber pos True 0 NMinus) stack h
      else if c = CHR ''0'' then Cont (MNumber pos False 0 NZero) stack h
      else if is_digit c then Cont (MNumber pos False (digit_val c) NInt) stack h
      else Stop kParseErrorValueInvalid pos h)"

definition after_value :: 
  "('h \<Rightarrow> sax_event \<Rightarrow> bool \<times> 'h) \<Rightarrow> nat \<Rightarrow> frame list \<Rightarrow> 'h \<Rightarrow> char \<Rightarrow> 'h step" where
  "after_value hf pos stack h c =
     (if is_ws c then Cont MAfterValue stack h
      else (case stack of
        [] \<Rightarrow> Stop kParseErrorDocumentRootNotSingular pos h
      | InArray n # fs \<Rightarrow>
          if c = CHR '','' then Cont MValue stack h
          else if c = CHR '']'' then close_event hf pos stack h
          else Stop kParseErrorArrayMissCommaOrSquareBracket pos h
      | InObject n # fs \<Rightarrow>
          if c = CHR '','' then Cont MKey stack h
          else if c = CHR ''}'' then close_event hf pos stack h
          else Stop kParseErrorObjectMissCommaOrCurlyBracket pos h))"

definition number_event :: "bool \<Rightarrow> nat \<Rightarrow> nummode \<Rightarrow> sax_event" where
  "number_event neg v sub =
     (if sub = NFrac \<or> sub = NExpDigits then sax_Double
      else if neg then
        (if v \<le> 2 ^ 31 then sax_Int (- int v)
         else if v \<le> 2 ^ 63 then sax_Int64 (- int v)
         else sax_Double)
      else
        (if v < 2 ^ 32 then sax_Uint v
         else if v < 2 ^ 64 then sax_Uint64 v
         else sax_Double))"

definition number_end ::
  "('h \<Rightarrow> sax_event \<Rightarrow> bool \<times> 'h) \<Rightarrow> nat \<Rightarrow> bool \<Rightarrow> nat \<Rightarrow> nummode \<Rightarrow> frame list \<Rightarrow> 'h
     \<Rightarrow> 'h step" where
  "number_end hf start neg v sub stack h =
     value_event hf start stack h (number_event neg v sub)"

definition is_exp :: "char \<Rightarrow> bool" where
  "is_exp c = (c = CHR ''e'' \<or> c = CHR ''E'')"

definition number_step ::
  "('h \<Rightarrow> sax_event \<Rightarrow> bool \<times> 'h) \<Rightarrow> nat \<Rightarrow> nat \<Rightarrow> bool \<Rightarrow> nat \<Rightarrow> nummode \<Rightarrow> frame list \<Rightarrow> 'h
     \<Rightarrow> char \<Rightarrow> 'h step" where
  "number_step hf pos start neg v sub stack h c =
     (let finished =
            (case number_end hf start neg v sub stack h of
               Cont m stack' h' \<Rightarrow> after_value hf pos stack' h' c
             | Stop code off h' \<Rightarrow> Stop code off h')
      in case sub of
        NMinus \<Rightarrow>
          if c = CHR ''0'' then Cont (MNumber start neg 0 NZero) stack h
          else if is_digit c then Cont (MNumber start neg (digit_val c) NInt) stack h
          else Stop kParseErrorValueInvalid pos h
      | NZero \<Rightarrow>
          if c = CHR ''.'' then Cont (MNumber start neg v NDot) stack h
          else if is_exp c then Cont (MNumber start neg v NExp) stack h
          else finished
      | NInt \<Rightarrow>
          if is_digit c then Cont (MNumber start neg (v * 10 + digit_val c) NInt) stack h
          else if c = CHR ''.'' then Cont (MNumber start neg v NDot) stack h
          else if is_exp c then Cont (MNumber start neg v NExp) stack h
          else finished
      | NDot \<Rightarrow>
          if is_digit c then Cont (MNumber start neg v NFrac) stack h
          else Stop kParseErrorNumberMissFraction pos h
      | NFrac \<Rightarrow>
          if is_digit c then Cont (MNumber start neg v NFrac) stack h
          else if is_exp c then Cont (MNumber start neg v NExp) stack h
          else finished
      | NExp \<Rightarrow>
          if c = CHR ''+'' \<or> c = CHR ''-'' then Cont (MNumber start neg v NExpSign) stack h
          else if is_digit c then Cont (MNumber start neg v NExpDigits) stack h
          else Stop kParseErrorNumberMissExponent pos h
      | NExpSign \<Rightarrow>
          if is_digit c then Cont (MNumber start neg v NExpDigits) stack h
          else Stop kParseErrorNumberMissExponent pos h
      | NExpDigits \<Rightarrow>
          if is_digit c then Cont (MNumber start neg v NExpDigits) stack h
          else finished)"

definition codepoint_done ::
  "bool \<Rightarrow> string \<Rightarrow> nat \<Rightarrow> nat \<Rightarrow> nat option \<Rightarrow> frame list \<Rightarrow> 'h \<Rightarrow> 'h step" where
  "codepoint_done isKey acc off cp high stack h =
     (case high of
        None \<Rightarrow>
          if 0xD800 \<le> cp \<and> cp \<le> 0xDFFF then
            (if cp \<le> 0xDBFF then Cont (MString isKey acc (SLowBackslash off cp)) stack h
             else Stop kParseErrorStringUnicodeSurrogateInvalid off h)
          else Cont (MString isKey (rev (utf8_encode cp) @ acc) SNormal) stack h
      | Some hi \<Rightarrow>
          if 0xDC00 \<le> cp \<and> cp \<le> 0xDFFF then
            Cont (MString isKey
                    (rev (utf8_encode ((hi - 0xD800) * 1024 + (cp - 0xDC00) + 0x10000)) @ acc)
                    SNormal) stack h
          else Stop kParseErrorStringUnicodeSurrogateInvalid off h)"

definition string_step ::
  "('h \<Rightarrow> sax_event \<Rightarrow> bool \<times> 'h) \<Rightarrow> nat \<Rightarrow> bool \<Rightarrow> string \<Rightarrow> strmode \<Rightarrow> frame list \<Rightarrow> 'h
     \<Rightarrow> char \<Rightarrow> 'h step" where
  "string_step hf pos isKey acc sub stack h c =
     (case sub of
        SNormal \<Rightarrow>
          if c = CHR 0x5C then Cont (MString isKey acc (SEscape pos)) stack h
          else if c = CHR 0x22 then
            (if isKey then
               (case hf h (sax_Key (rev acc)) of
                  (True, h') \<Rightarrow> Cont MColon stack h'
                | (False, h') \<Rightarrow> Stop kParseErrorTermination (Suc pos) h')
             else value_event hf (Suc pos) stack h (sax_String (rev acc)))
          else if (of_char c :: nat) < 0x20 then Stop kParseErrorStringInvalidEncoding pos h
          else Cont (MString isKey (c # acc) SNormal) stack h
      | SEscape off \<Rightarrow>
          (case escape_char c of
             Some e \<Rightarrow> Cont (MString isKey (e # acc) SNormal) stack h
           | None \<Rightarrow>
               if c = CHR ''u'' then Cont (MString isKey acc (SHex off 4 0 None)) stack h
               else Stop kParseErrorStringEscapeInvalid off h)
      | SHex off k v high \<Rightarrow>
          (case hex_val c of
             None \<Rightarrow> Stop kParseErrorStringUnicodeEscapeInvalidHex off h
           | Some d \<Rightarrow>
               if k \<le> 1 then codepoint_done isKey acc off (v * 16 + d) high stack h
               else Cont (MString isKey acc (SHex off (k - 1) (v * 16 + d) high)) stack h)
      | SLowBackslash off hi \<Rightarrow>
          if c = CHR 0x5C then Cont (MString isKey acc (SLowU off hi)) stack h
          else Stop kParseErrorStringUnicodeSurrogateInvalid off h
      | SLowU off hi \<Rightarrow>
          if c = CHR ''u'' then Cont (MString isKey acc (SHex off 4 0 (Some hi))) stack h
          else Stop kParseErrorStringUnicodeSurrogateInvalid off h)"

definition reader_step ::
  "('h \<Rightarrow> sax_event \<Rightarrow> bool \<times> 'h) \<Rightarrow> nat \<Rightarrow> mode \<Rightarrow> frame list \<Rightarrow> 'h \<Rightarrow> char \<Rightarrow> 'h step" where
  "reader_step hf pos m stack h c =
     (case m of
        MDocStart \<Rightarrow> if is_ws c then Cont MDocStart stack h else value_start hf pos stack h c
      | MArrayFirst \<Rightarrow>
          if is_ws c then Cont MArrayFirst stack h
          else if c = CHR '']'' then close_event hf pos stack h
          else value_start hf pos stack h c
      | MValue \<Rightarrow> if is_ws c then Cont MValue stack h else value_start hf pos stack h c
      | MObjectFirst \<Rightarrow>
          if is_ws c then Cont MObjectFirst stack h
          else if c = CHR ''}'' then close_event hf pos stack h
          else if c = CHR 0x22 then Cont (MString True [] SNormal) stack h
          else Stop kParseErrorObjectMissName pos h
      | MKey \<Rightarrow>
          if is_ws c then Cont MKey stack h
          else if c = CHR 0x22 then Cont (MString True [] SNormal) stack h
          else Stop kParseErrorObjectMissName pos h
      | MColon \<Rightarrow>
          if is_ws c then Cont MColon stack h
          else if c = CHR '':'' then Cont MValue stack h
          else Stop kParseErrorObjectMissColon pos h
      | MAfterValue \<Rightarrow> after_value hf pos stack h c
      | MLiteral rest ev \<Rightarrow>
          (case rest of
             [] \<Rightarrow> Stop kParseErrorValueInvalid pos h
           | r # rs \<Rightarrow>
               if c \<noteq> r then Stop kParseErrorValueInvalid pos h
               else if rs = [] then value_event hf (Suc pos) stack h ev
               else Cont (MLiteral rs ev) stack h)
      | MString isKey acc sub \<Rightarrow> string_step hf pos isKey acc sub stack h c
      | MNumber start neg v sub \<Rightarrow> number_step hf pos start neg v sub stack h c)"

text \<open>The end of the text (the terminating NUL of the stream).\<close>

definition after_end :: "nat \<Rightarrow> frame list \<Rightarrow> 'h \<Rightarrow> (ParseErrorCode \<times> nat) \<times> 'h" where
  "after_end pos stack h =
     (case stack of
        [] \<Rightarrow> ((kParseErrorNone, 0), h)
      | InArray n # fs \<Rightarrow> ((kParseErrorArrayMissCommaOrSquareBracket, pos), h)
      | InObject n # fs \<Rightarrow> ((kParseErrorObjectMissCommaOrCurlyBracket, pos), h))"

definition reader_end ::
  "('h \<Rightarrow> sax_event \<Rightarrow> bool \<times> 'h) \<Rightarrow> nat \<Rightarrow> mode \<Rightarrow> frame list \<Rightarrow> 'h
     \<Rightarrow> (ParseErrorCode \<times> nat) \<times> 'h" where
  "reader_end hf pos m stack h =
     (case m of
        MDocStart \<Rightarrow> ((kParseErrorDocumentEmpty, pos), h)
      | MArrayFirst \<Rightarrow> ((kParseErrorValueInvalid, pos), h)
      | MValue \<Rightarrow> ((kParseErrorValueInvalid, pos), h)
      | MObjectFirst \<Rightarrow> ((kParseErrorObjectMissName, pos), h)
      | MKey \<Rightarrow> ((kParseErrorObjectMissName, pos), h)
      | MColon \<Rightarrow> ((kParseErrorObjectMissColon, pos), h)
      | MAfterValue \<Rightarrow> after_end pos stack h
      | MLiteral rest ev \<Rightarrow> ((kParseErrorValueInvalid, pos), h)
      | MString isKey acc sub \<Rightarrow>
          (case sub of
             SNormal \<Rightarrow> ((kParseErrorStringMissQuotationMark, pos), h)
           | SEscape off \<Rightarrow> ((kParseErrorStringEscapeInvalid, off), h)
           | SHex off k v high \<Rightarrow> ((kParseErrorStringUnicodeEscapeInvalidHex, off), h)
           | SLowBackslash off hi \<Rightarrow> ((kParseErrorStringUnicodeSurrogateInvalid, off), h)
           | SLowU off hi \<Rightarrow> ((kParseErrorStringUnicodeSurrogateInvalid, off), h))
      | MNumber start neg v sub \<Rightarrow>
          (if sub = NMinus then ((kParseErrorValueInvalid, pos), h)
           else if sub = NDot then ((kParseErrorNumberMissFraction, pos), h)
           else if sub = NExp \<or> sub = NExpSign then ((kParseErrorNumberMissExponent, pos), h)
           else (case number_end hf start neg v sub stack h of
                   Cont m' stack' h' \<Rightarrow> after_end pos stack' h'
                 | Stop code off h' \<Rightarrow> ((code, off), h'))))"

fun reader_run ::
  "('h \<Rightarrow> sax_event \<Rightarrow> bool \<times> 'h) \<Rightarrow> nat \<Rightarrow> mode \<Rightarrow> frame list \<Rightarrow> 'h \<Rightarrow> string
     \<Rightarrow> (ParseErrorCode \<times> nat) \<times> 'h" where
  "reader_run hf pos m stack h [] = reader_end hf pos m stack h"
| "reader_run hf pos m stack h (c # cs) =
     (case reader_step hf pos m stack h c of
        Stop code off h' \<Rightarrow> ((code, off), h')
      | Cont m' stack' h' \<Rightarrow> reader_run hf (Suc pos) m' stack' h' cs)"

text \<open>
  \<^verbatim>\<open>reader.Parse(ss, handler)\<close> on a \<^verbatim>\<open>StringStream\<close> over \<^verbatim>\<open>jsonStr.c_str()\<close>:
  the stream ends at the first NUL. The result is the parse result (error code and
  offset) and the handler as the events left it.
\<close>

definition Parse ::
  "('h \<Rightarrow> sax_event \<Rightarrow> bool \<times> 'h) \<Rightarrow> 'h \<Rightarrow> string \<Rightarrow> (ParseErrorCode \<times> nat) \<times> 'h" where
  "Parse hf h text = reader_run hf 0 MDocStart [] h (c_str text)"

subsection \<open>The handler \<^verbatim>\<open>jsonStrToUsetHandler\<close>\<close>

text \<open>
  \<^verbatim>\<open>
  struct jsonStrToUsetHandler: public rj::BaseReaderHandler<rj::UTF8<>, jsonStrToUsetHandler>
  {
      jsonStrToUsetHandler():state_(State::kExpectArrayStart) {}
      bool StartArray() noexcept
      {
          switch (state_)
          {
              case State::kExpectArrayStart:
                  state_ = State::kExpectValueOrArrayEnd;
                  return true;
              default:
                  return false;
          }
      }
      bool String(const char *str, rj::SizeType length, bool)
      {
          switch (state_)
          {
              case State::kExpectValueOrArrayEnd:
                  handlerUSet_.emplace(str);
                  return true;
              default:
                  return false;
          }
      }
      bool EndArray(rj::SizeType) noexcept
      {
          return state_ == State::kExpectValueOrArrayEnd;
      }
      bool Default() { return false; } // All other events are invalid.
      std::unordered_set<std::string> handlerUSet_; // output uSet
      enum class State { kExpectArrayStart, kExpectValueOrArrayEnd, } state_;
  };
  \<close>
  Each method is a function from the handler to its answer and the handler after the call.
\<close>

datatype State = kExpectArrayStart | kExpectValueOrArrayEnd

record jsonStrToUsetHandler =
  handlerUSet :: "string set"
  state :: State

definition handler_init :: jsonStrToUsetHandler where
  "handler_init = \<lparr>handlerUSet = {}, state = kExpectArrayStart\<rparr>"

definition StartArray :: "jsonStrToUsetHandler \<Rightarrow> bool \<times> jsonStrToUsetHandler" where
  "StartArray h =
     (case state h of
        kExpectArrayStart \<Rightarrow> (True, h\<lparr>state := kExpectValueOrArrayEnd\<rparr>)
      | _ \<Rightarrow> (False, h))"

text \<open>
  \<^verbatim>\<open>handlerUSet_.emplace(str)\<close> builds the element from the pointer alone, without
  the \<^verbatim>\<open>length\<close> argument: the element is the text up to the first NUL.
\<close>

definition String :: "jsonStrToUsetHandler \<Rightarrow> string \<Rightarrow> bool \<times> jsonStrToUsetHandler" where
  "String h str =
     (case state h of
        kExpectValueOrArrayEnd \<Rightarrow> (True, h\<lparr>handlerUSet := insert (c_str str) (handlerUSet h)\<rparr>)
      | _ \<Rightarrow> (False, h))"

definition EndArray :: "jsonStrToUsetHandler \<Rightarrow> nat \<Rightarrow> bool \<times> jsonStrToUsetHandler" where
  "EndArray h n = (state h = kExpectValueOrArrayEnd, h)"

definition Default :: "jsonStrToUsetHandler \<Rightarrow> bool \<times> jsonStrToUsetHandler" where
  "Default h = (False, h)"

text \<open>
  The handler derives from \<^verbatim>\<open>rapidjson::BaseReaderHandler\<close>, whose methods all call
  \<^verbatim>\<open>Default()\<close> of the derived class, but for \<^verbatim>\<open>Key\<close>, which calls \<^verbatim>\<open>String\<close> of
  the derived class. The handler overrides \<^verbatim>\<open>StartArray\<close>, \<^verbatim>\<open>String\<close>,
  \<^verbatim>\<open>EndArray\<close> and \<^verbatim>\<open>Default\<close>.
\<close>

fun handle :: "jsonStrToUsetHandler \<Rightarrow> sax_event \<Rightarrow> bool \<times> jsonStrToUsetHandler" where
  "handle h sax_StartArray = StartArray h"
| "handle h (sax_String s) = String h s"
| "handle h (sax_EndArray n) = EndArray h n"
| "handle h (sax_Key s) = String h s"
| "handle h _ = Default h"

subsection \<open>The schema validator\<close>

text \<open>
  Modelled from the spec: the schema \<^verbatim>\<open>doc/definitions.json#/flatJsonSchema\<close> is a
  file of the repository that is not among the sources. By the spec it requires that the
  top-level value is an array and that every element is a string, and permits no other
  shape. \<^verbatim>\<open>rapidjson::GenericSchemaValidator\<close> checks each event against the schema
  first; a valid event goes on to the output handler, whose answer becomes the
  validator's; once invalid, the validator rejects every event. The schema file is taken
  to be present and readable where \<^verbatim>\<open>jsonStrToUset\<close> opens it.
\<close>

datatype schema_ctx = AtRoot | InItems | AfterRoot

fun schema_step :: "schema_ctx \<Rightarrow> sax_event \<Rightarrow> schema_ctx option" where
  "schema_step AtRoot sax_StartArray = Some InItems"
| "schema_step InItems (sax_String s) = Some InItems"
| "schema_step InItems (sax_EndArray n) = Some AfterRoot"
| "schema_step _ _ = None"

record validator =
  valid :: bool
  ctx :: schema_ctx
  invalidKeyword :: string
  outputHandler :: jsonStrToUsetHandler

definition validator_init :: "jsonStrToUsetHandler \<Rightarrow> validator" where
  "validator_init h = \<lparr>valid = True, ctx = AtRoot, invalidKeyword = [], outputHandler = h\<rparr>"

definition validate :: "validator \<Rightarrow> sax_event \<Rightarrow> bool \<times> validator" where
  "validate v ev =
     (if \<not> valid v then (False, v)
      else (case schema_step (ctx v) ev of
              None \<Rightarrow> (False, v\<lparr>valid := False, invalidKeyword := ''type''\<rparr>)
            | Some c' \<Rightarrow>
                (case handle (outputHandler v) ev of
                   (ok, h') \<Rightarrow> (ok, v\<lparr>valid := ok, ctx := c', outputHandler := h'\<rparr>))))"

subsection \<open>\<^verbatim>\<open>jsonStrToUset\<close>\<close>

text \<open>
  What \<^verbatim>\<open>jsonStrToUset\<close> writes to \<^verbatim>\<open>cerr\<close>: the parse error with its offset,
  and the violated schema keyword when the validator is invalid.
\<close>

datatype diagnostic = ParseErrorLine nat ParseErrorCode | InvalidKeywordLine string

record decode_outcome =
  status :: bfxERR
  uSet :: "string set"
  cerr :: "diagnostic list"

text \<open>
  \<^verbatim>\<open>
  bfxERR jsonStrToUset(unordered_set<string> &uSet, const string &jsonStr)
  {
      ...
      jsonStrToUsetHandler handler;
      rj::GenericSchemaValidator<rj::SchemaDocument, jsonStrToUsetHandler> validator(schemaDoc, handler);
      rj::Reader reader;
      rj::StringStream ss(jsonStr.c_str());
      if (!reader.Parse(ss, validator))
      {
          cerr << "Error(offset " << reader.GetErrorOffset() << "): ";
          cerr << GetParseError_En(reader.GetParseErrorCode()) << endl;
          if (!validator.IsValid())
          {
              ...
              cerr << "Invalid keyword: " << validator.GetInvalidSchemaKeyword() << endl;
              ...
          }
          return bfxERR::jsonStrToUSetError;
      }
      else
      {
          uSet.swap(handler.handlerUSet_);
          return bfxERR::noError;
      }
  }
  \<close>
\<close>

definition jsonStrToUset :: "string set \<Rightarrow> string \<Rightarrow> decode_outcome" where
  "jsonStrToUset uSet0 jsonStr =
     (case Parse validate (validator_init handler_init) jsonStr of
        ((code, off), v) \<Rightarrow>
          if code \<noteq> kParseErrorNone then
            \<lparr>status = jsonStrToUSetError,
             uSet = uSet0,
             cerr = ParseErrorLine off code
                    # (if \<not> valid v then [InvalidKeywordLine (invalidKeyword v)] else [])\<rparr>
          else
            \<lparr>status = noError, uSet = handlerUSet (outputHandler v), cerr = []\<rparr>)"

subsection \<open>Observing the reader and the handler\<close>

text \<open>A handler that accepts every event and keeps the events in order: it shows what the
  reader delivers for a text.\<close>

definition collect :: "sax_event list \<Rightarrow> sax_event \<Rightarrow> bool \<times> sax_event list" where
  "collect evs ev = (True, evs @ [ev])"

text \<open>The handler on a sequence of events, as a reader delivers them: one after the other,
  up to the first that the handler rejects.\<close>

fun feed :: "jsonStrToUsetHandler \<Rightarrow> sax_event list \<Rightarrow> bool \<times> jsonStrToUsetHandler" where
  "feed h [] = (True, h)"
| "feed h (ev # evs) =
     (case handle h ev of
        (True, h') \<Rightarrow> feed h' evs
      | (False, h') \<Rightarrow> (False, h'))"

subsection \<open>What holds of the handler during a run\<close>

text \<open>
  \<open>answers P Q hf\<close>: from a handler for which \<open>P\<close> holds, an event that \<open>hf\<close>
  accepts leaves \<open>P\<close> and one that it rejects leaves \<open>Q\<close>. \<open>step_ok\<close> and
  \<open>result_ok\<close> say the same of a step and of the result of the reader: after a
  termination \<open>Q\<close> holds of the handler, and \<open>P\<close> otherwise.
\<close>

definition answers :: "('h \<Rightarrow> bool) \<Rightarrow> ('h \<Rightarrow> bool) \<Rightarrow> ('h \<Rightarrow> sax_event \<Rightarrow> bool \<times> 'h) \<Rightarrow> bool" where
  "answers P Q hf =
     (\<forall>h ev. P h \<longrightarrow> (fst (hf h ev) \<longrightarrow> P (snd (hf h ev))) \<and> (\<not> fst (hf h ev) \<longrightarrow> Q (snd (hf h ev))))"

definition step_ok :: "('h \<Rightarrow> bool) \<Rightarrow> ('h \<Rightarrow> bool) \<Rightarrow> 'h step \<Rightarrow> bool" where
  "step_ok P Q s =
     (case s of
        Cont m stack h \<Rightarrow> P h
      | Stop code off h \<Rightarrow>
          code \<noteq> kParseErrorNone \<and> (if code = kParseErrorTermination then Q h else P h))"

definition result_ok :: "('h \<Rightarrow> bool) \<Rightarrow> ('h \<Rightarrow> bool) \<Rightarrow> (ParseErrorCode \<times> nat) \<times> 'h \<Rightarrow> bool" where
  "result_ok P Q r = (if fst (fst r) = kParseErrorTermination then Q (snd r) else P (snd r))"

text \<open>
  For the validator: as long as it is valid no keyword is recorded, and the schema's place
  in the document and the handler's state go together; once a schema check has failed it
  is invalid and the keyword is \<^verbatim>\<open>type\<close>.
\<close>

definition in_step :: "validator \<Rightarrow> bool" where
  "in_step v =
     (case ctx v of
        AtRoot \<Rightarrow> state (outputHandler v) = kExpectArrayStart
      | InItems \<Rightarrow> state (outputHandler v) = kExpectValueOrArrayEnd
      | AfterRoot \<Rightarrow> True)"

definition validating :: "validator \<Rightarrow> bool" where
  "validating v = (valid v \<and> invalidKeyword v = [] \<and> in_step v)"

definition violated :: "validator \<Rightarrow> bool" where
  "violated v = (\<not> valid v \<and> invalidKeyword v = ''type'')"

text \<open>No element that the handler has collected holds a NUL byte.\<close>

definition NUL_free :: "validator \<Rightarrow> bool" where
  "NUL_free v = (validating v
                 \<and> (\<forall>s \<in> handlerUSet (outputHandler v). NUL \<notin> set s))"

section \<open>Properties of the encoder\<close>

lemma copy_loop_within:
  "i \<le> length content \<Longrightarrow> length content \<le> length buffer \<Longrightarrow>
   copy_loop i content buffer =
     Inr (take i buffer @ drop i content @ drop (length content) buffer)"
proof (induction i content buffer rule: copy_loop.induct)
  case (1 i content buffer)
  show ?case
  proof (cases "i < length content")
    case True
    with "1.prems" have ib: "i < length buffer" by simp
    have step: "copy_loop i content buffer = copy_loop (Suc i) content (buffer[i := content ! i])"
      using True ib by (simp add: copy_loop.simps [of i])
    have ih: "copy_loop (Suc i) content (buffer[i := content ! i]) =
        Inr (take (Suc i) (buffer[i := content ! i]) @ drop (Suc i) content
             @ drop (length content) (buffer[i := content ! i]))"
      using "1.IH" [OF True ib] True "1.prems" by simp
    have a: "take (Suc i) (buffer[i := content ! i]) = take i buffer @ [content ! i]"
      using ib by (simp add: take_Suc_conv_app_nth)
    have b: "drop (length content) (buffer[i := content ! i]) = drop (length content) buffer"
      using True by simp
    have c: "drop i content = content ! i # drop (Suc i) content"
      using True by (simp add: Cons_nth_drop_Suc)
    show ?thesis by (simp add: step ih a b c)
  next
    case False
    with "1.prems" have "i = length content" by simp
    then show ?thesis by (subst copy_loop.simps) simp
  qed
qed

lemma copy_loop_beyond:
  "length buffer < length content \<Longrightarrow> i \<le> length buffer \<Longrightarrow>
   copy_loop i content buffer = Inl (StackBufferOverrun (length buffer))"
proof (induction i content buffer rule: copy_loop.induct)
  case (1 i content buffer)
  show ?case
  proof (cases "i < length buffer")
    case True
    then have "copy_loop i content buffer = copy_loop (Suc i) content (buffer[i := content ! i])"
      using "1.prems" by (simp add: copy_loop.simps [of i])
    also have "\<dots> = Inl (StackBufferOverrun (length (buffer[i := content ! i])))"
      using "1.IH" True "1.prems" by simp
    finally show ?thesis by simp
  next
    case False
    with "1.prems" have "i = length buffer" by simp
    then show ?thesis using "1.prems" by (subst copy_loop.simps) simp
  qed
qed

lemma getBase64_within:
  "length content \<le> buffer_size \<Longrightarrow>
   getBase64 content encoded = Inr (0, encoded @ b64_groups content)"
  by (simp add: getBase64_def copy_loop_within Base64Encoder_def)

lemma getBase64_beyond:
  "buffer_size < length content \<Longrightarrow>
   getBase64 content encoded = Inl (StackBufferOverrun buffer_size)"
  by (simp add: getBase64_def copy_loop_beyond)

lemma idx_of_nth: "distinct xs \<Longrightarrow> i < length xs \<Longrightarrow> idx_of (xs ! i) xs = Some i"
proof (induction xs arbitrary: i)
  case Nil
  then show ?case by simp
next
  case (Cons x xs)
  then show ?case by (cases i) auto
qed

lemma b64_alphabet_distinct: "distinct b64_alphabet"
  by (simp add: b64_alphabet_def)

lemma b64_alphabet_length: "length b64_alphabet = 64"
  by (simp add: b64_alphabet_def)

lemma b64_index_char: "i < 64 \<Longrightarrow> b64_index (b64_char i) = Some i"
  by (simp add: b64_index_def b64_char_def idx_of_nth b64_alphabet_distinct b64_alphabet_length)

lemma b64_char_in: "b64_char i \<in> set b64_alphabet"
  by (simp add: b64_char_def b64_alphabet_length)

lemma b64_pad_notin: "b64_pad \<notin> set b64_alphabet"
  by (simp add: b64_alphabet_def b64_pad_def)

lemma b64_char_not_pad: "b64_char i \<noteq> b64_pad"
  using b64_char_in b64_pad_notin by metis

lemma q_div: "b < k \<Longrightarrow> (a * k + b) div k = (a::nat)"
  by simp

lemma q_mod: "b < k \<Longrightarrow> (a * k + b) mod k = (b::nat)"
  by simp

lemma sextet_first: "y < 256 \<Longrightarrow> (x div 4) * 4 + ((x mod 4) * 16 + y div 16) div 16 = (x::nat)"
proof -
  assume "y < 256"
  then have "y div 16 < 16" by simp
  then have "((x mod 4) * 16 + y div 16) div 16 = x mod 4" by (rule q_div)
  then show ?thesis by simp
qed

lemma sextet_second: "y < 256 \<Longrightarrow> z < 256 \<Longrightarrow>
  (((x mod 4) * 16 + y div 16) mod 16) * 16 + ((y mod 16) * 4 + z div 64) div 4 = (y::nat)"
proof -
  assume "y < 256" "z < 256"
  then have a: "y div 16 < 16" and b: "z div 64 < 4" by simp_all
  have "((x mod 4) * 16 + y div 16) mod 16 = y div 16" using a by (rule q_mod)
  moreover have "((y mod 16) * 4 + z div 64) div 4 = y mod 16" using b by (rule q_div)
  ultimately show ?thesis by simp
qed

lemma sextet_third: "z < 256 \<Longrightarrow> (((y mod 16) * 4 + z div 64) mod 4) * 64 + z mod 64 = (z::nat)"
proof -
  assume "z < 256"
  then have b: "z div 64 < 4" by simp
  have "((y mod 16) * 4 + z div 64) mod 4 = z div 64" using b by (rule q_mod)
  then show ?thesis by simp
qed

lemma sextet_second_last: "y < 256 \<Longrightarrow>
  (((x mod 4) * 16 + y div 16) mod 16) * 16 + ((y mod 16) * 4) div 4 = (y::nat)"
  using sextet_second [of y 0 x] by simp

lemma sextet_bound1: "x < 256 \<Longrightarrow> x div 4 < (64::nat)"
  by simp

lemma sextet_bound2: "y < 256 \<Longrightarrow> (x mod 4) * 16 + y div 16 < (64::nat)"
proof -
  assume "y < 256"
  then have "y div 16 < 16" by simp
  moreover have "x mod 4 < 4" by simp
  ultimately show ?thesis by linarith
qed

lemma sextet_bound3: "z < 256 \<Longrightarrow> (y mod 16) * 4 + z div 64 < (64::nat)"
proof -
  assume "z < 256"
  then have "z div 64 < 4" by simp
  moreover have "y mod 16 < 16" by simp
  ultimately show ?thesis by linarith
qed

lemma decodeBase64_quad:
  "z \<noteq> b64_pad \<Longrightarrow>
   decodeBase64 (w # x # y # z # r) =
     (case b64_quad w x y z of None \<Rightarrow> None
      | Some bs \<Rightarrow> map_option (\<lambda>r. bs @ r) (decodeBase64 r))"
  by (cases r) (auto simp: b64_last_def split: option.splits)

lemma b64_quad_chars:
  assumes "x < 256" "y < 256" "z < 256"
  shows "b64_quad (b64_char (x div 4)) (b64_char ((x mod 4) * 16 + y div 16))
           (b64_char ((y mod 16) * 4 + z div 64)) (b64_char (z mod 64))
         = Some [char_of x, char_of y, char_of z]"
proof -
  have i1: "b64_index (b64_char (x div 4)) = Some (x div 4)"
    using assms by (intro b64_index_char sextet_bound1)
  have i2: "b64_index (b64_char ((x mod 4) * 16 + y div 16)) = Some ((x mod 4) * 16 + y div 16)"
    using assms by (intro b64_index_char sextet_bound2)
  have i3: "b64_index (b64_char ((y mod 16) * 4 + z div 64)) = Some ((y mod 16) * 4 + z div 64)"
    using assms by (intro b64_index_char sextet_bound3)
  have i4: "b64_index (b64_char (z mod 64)) = Some (z mod 64)"
    by (intro b64_index_char) simp
  show ?thesis
    unfolding b64_quad_def i1 i2 i3 i4
    using sextet_first [OF assms(2), of x] sextet_second [OF assms(2,3), of x]
      sextet_third [OF assms(3), of y]
    by simp
qed

lemma decodeBase64_b64_groups: "decodeBase64 (b64_groups P) = Some P"
proof (induction P rule: b64_groups.induct)
  case 1
  show ?case by simp
next
  case (2 a)
  define x where "x = (of_char a :: nat)"
  have xb: "x < 256" by (simp add: x_def)
  have i1: "b64_index (b64_char (x div 4)) = Some (x div 4)"
    using xb by (intro b64_index_char sextet_bound1)
  have i2: "b64_index (b64_char ((x mod 4) * 16)) = Some ((x mod 4) * 16)"
    using sextet_bound2 [of 0 x] by (intro b64_index_char) simp
  have "char_of ((x div 4) * 4 + x mod 4) = a"
    by (simp add: x_def)
  then show ?case
    by (simp add: Let_def b64_last_def i1 i2 x_def [symmetric])
next
  case (3 a b)
  define x where "x = (of_char a :: nat)"
  define y where "y = (of_char b :: nat)"
  have xb: "x < 256" and yb: "y < 256" by (simp_all add: x_def y_def)
  have i1: "b64_index (b64_char (x div 4)) = Some (x div 4)"
    using xb by (intro b64_index_char sextet_bound1)
  have i2: "b64_index (b64_char ((x mod 4) * 16 + y div 16)) = Some ((x mod 4) * 16 + y div 16)"
    using yb by (intro b64_index_char sextet_bound2)
  have i3: "b64_index (b64_char ((y mod 16) * 4)) = Some ((y mod 16) * 4)"
    using sextet_bound3 [of 0 y] by (intro b64_index_char) simp
  have np: "b64_char ((y mod 16) * 4) \<noteq> b64_pad" by (rule b64_char_not_pad)
  have ca: "char_of x = a" and cb: "char_of y = b" by (simp_all add: x_def y_def)
  show ?case
    using sextet_first [OF yb, of x] sextet_second_last [OF yb, of x] np
    by (simp add: Let_def b64_last_def i1 i2 i3 x_def [symmetric] y_def [symmetric] ca cb)
next
  case (4 a b c rest)
  define x where "x = (of_char a :: nat)"
  define y where "y = (of_char b :: nat)"
  define z where "z = (of_char c :: nat)"
  have bs: "x < 256" "y < 256" "z < 256" by (simp_all add: x_def y_def z_def)
  have cs: "char_of x = a" "char_of y = b" "char_of z = c" by (simp_all add: x_def y_def z_def)
  have np: "b64_char (z mod 64) \<noteq> b64_pad" by (rule b64_char_not_pad)
  show ?case
    using "4.IH" np
    by (simp add: Let_def x_def [symmetric] y_def [symmetric] z_def [symmetric]
        decodeBase64_quad b64_quad_chars [OF bs] cs)
qed

lemma b64_groups_chars: "set (b64_groups P) \<subseteq> insert b64_pad (set b64_alphabet)"
  by (induction P rule: b64_groups.induct) (auto simp: Let_def b64_char_in)

lemma b64_output_printable:
  "c \<in> insert b64_pad (set b64_alphabet) \<Longrightarrow> c \<noteq> newline \<and> c \<noteq> CHR 0x0D \<and> c \<noteq> NUL"
  by (auto simp: b64_pad_def b64_alphabet_def newline_def NUL_def)

lemma grouper_breaks:
  "k \<le> n \<Longrightarrow> n - k < length xs \<Longrightarrow> newline \<in> set (grouper n k xs)"
proof (induction xs arbitrary: k)
  case Nil
  then show ?case by simp
next
  case (Cons x xs)
  show ?case
  proof (cases "k = n")
    case True
    then show ?thesis by simp
  next
    case False
    with Cons.prems have "Suc k \<le> n" "n - Suc k < length xs" by simp_all
    then have "newline \<in> set (grouper n (Suc k) xs)" by (rule Cons.IH)
    with False show ?thesis by simp
  qed
qed


lemma b64_groups_example: "b64_groups ''Many hands'' = ''TWFueSBoYW5kcw==''"
  by code_simp

text \<open>
  C1. A payload of more than 1024 bytes should make the encoder fail with
  \<open>PayloadTooLarge\<close>. The code has no such condition: a payload of exactly 1024 bytes
  is encoded, and with 1025 bytes the copy loop stores past the end of the local buffer.
\<close>

theorem getBase64_one_past_buffer:
  "getBase64 (replicate 1025 (CHR ''a'')) [] = Inl (StackBufferOverrun 1024)
   \<and> getBase64 (replicate 1024 (CHR ''a'')) [] = Inr (0, b64_groups (replicate 1024 (CHR ''a'')))"
  by (simp add: getBase64_beyond getBase64_within buffer_size_def)

text \<open>
  C2. For every payload within the encoder's size bound of 1024 bytes, \<^verbatim>\<open>getBase64\<close>
  returns, and decoding the text it appended to the output string (which is empty when
  \<^verbatim>\<open>DoPOSTrequest\<close> calls it) gives the payload back.
\<close>

theorem getBase64_roundtrip:
  "length P \<le> buffer_size \<Longrightarrow>
   \<exists>e. getBase64 P encoded = Inr (0, encoded @ e) \<and> decodeBase64 e = Some P"
  by (simp add: getBase64_within decodeBase64_b64_groups)

theorem getBase64_roundtrip_witness:
  "length ''Many hands'' \<le> buffer_size
   \<and> getBase64 ''Many hands'' [] = Inr (0, ''TWFueSBoYW5kcw=='')
   \<and> decodeBase64 ''TWFueSBoYW5kcw=='' = Some ''Many hands''"
proof -
  have len: "length ''Many hands'' \<le> buffer_size"
    by (simp add: buffer_size_def)
  have enc: "getBase64 ''Many hands'' [] = Inr (0, ''TWFueSBoYW5kcw=='')"
    unfolding getBase64_within [OF len] b64_groups_example by simp
  from getBase64_roundtrip [OF len, of "[]"] obtain e
    where e: "getBase64 ''Many hands'' [] = Inr (0, e)"
      and d: "decodeBase64 e = Some ''Many hands''"
    by auto
  from e enc have "e = ''TWFueSBoYW5kcw==''"
    by simp
  with d have "decodeBase64 ''TWFueSBoYW5kcw=='' = Some ''Many hands''"
    by blast
  with len enc show ?thesis
    by blast
qed

text \<open>
  C10. For every payload within the encoder's size bound, the text \<^verbatim>\<open>getBase64\<close>
  appends to the output string has no line feed and no carriage return: the encoder is built with
  \<^verbatim>\<open>insertLineBreaks = false\<close>, and the characters of the base64 alphabet and the padding
  are all it writes.
\<close>

theorem getBase64_single_line:
  "length content \<le> buffer_size \<Longrightarrow>
   \<exists>e. getBase64 content encoded = Inr (0, encoded @ e)
       \<and> newline \<notin> set e \<and> CHR 0x0D \<notin> set e
       \<and> set e \<subseteq> insert b64_pad (set b64_alphabet)"
  using b64_groups_chars [of content] b64_output_printable
  by (auto simp: getBase64_within)

theorem getBase64_single_line_witness:
  "length (replicate 100 (CHR ''x'')) \<le> buffer_size
   \<and> (\<exists>e. getBase64 (replicate 100 (CHR ''x'')) [] = Inr (0, e)
          \<and> newline \<notin> set e \<and> CHR 0x0D \<notin> set e)
   \<and> newline \<in> set (Base64Encoder True 72 (replicate 100 (CHR ''x'')))"
proof -
  have len: "length (replicate 100 (CHR ''x'')) \<le> buffer_size"
    by (simp add: buffer_size_def)
  have brk: "newline \<in> set (Base64Encoder True 72 (replicate 100 (CHR ''x'')))"
    by (simp add: Base64Encoder_def)
  from getBase64_single_line [OF len, of "[]"] len brk show ?thesis
    by auto
qed


section \<open>Properties of the signer\<close>






lemma hex_upper_nth: "i < 16 \<Longrightarrow> hex_upper ! i \<in> set hex_upper"
  by (rule nth_mem) (simp add: hex_upper_def)

lemma of_char_div16: "(of_char b :: nat) div 16 < 16"
proof -
  have "(of_char b :: nat) < 16 * 16" by simp
  then show ?thesis by (rule less_mult_imp_div_less)
qed

lemma HexEncoder_chars: "set (HexEncoder bs) \<subseteq> set hex_upper"
proof (induction bs)
  case Nil
  show ?case by (simp add: HexEncoder_def)
next
  case (Cons b bs)
  have 1: "hex_upper ! ((of_char b :: nat) div 16) \<in> set hex_upper"
    using of_char_div16 by (rule hex_upper_nth)
  have 2: "hex_upper ! ((of_char b :: nat) mod 16) \<in> set hex_upper"
    by (rule hex_upper_nth) simp
  show ?case using Cons 1 2 by (simp add: HexEncoder_def)
qed

lemma tolower_hex_upper: "list_all (\<lambda>c. tolower c \<in> set hex_lower) hex_upper"
  by code_simp

lemma tolower_hex: "c \<in> set hex_upper \<Longrightarrow> tolower c \<in> set hex_lower"
  using tolower_hex_upper by (simp add: list_all_iff)

lemma getHmacSha384_eq:
  "getHmacSha384 key content digest = (0, map tolower (HexEncoder (HMAC_SHA384 key content)))"
  by (simp add: getHmacSha384_def)

lemma signature_chars: "set (snd (getHmacSha384 key content digest)) \<subseteq> set hex_lower"
  using HexEncoder_chars [of "HMAC_SHA384 key content"] tolower_hex
  by (auto simp: getHmacSha384_eq)

lemma hex_lower_no_NUL: "NUL \<notin> set hex_lower"
  by (simp add: hex_lower_def NUL_def)

lemma c_str_id: "NUL \<notin> set s \<Longrightarrow> c_str s = s"
  by (auto simp: c_str_def takeWhile_eq_all_conv)




section \<open>Properties of the request builder\<close>

lemma payload_no_NUL: "NUL \<notin> set (b64_groups P)"
  using b64_groups_chars [of P] b64_output_printable by blast

lemma signature_no_NUL: "NUL \<notin> set (snd (getHmacSha384 key content digest))"
  using signature_chars [of key content digest] hex_lower_no_NUL by blast

lemma c_str_prefixed:
  "NUL \<notin> set p \<Longrightarrow> NUL \<notin> set s \<Longrightarrow> c_str (p @ s) = p @ s"
  by (rule c_str_id) simp

lemma header_names_no_NUL:
  "NUL \<notin> set ''X-BFX-APIKEY:''" "NUL \<notin> set ''X-BFX-PAYLOAD:''" "NUL \<notin> set ''X-BFX-SIGNATURE:''"
  by (simp_all add: NUL_def)

lemma DoPOSTrequest_built:
  assumes "curlPOST api" "length params \<le> buffer_size"
  shows "DoPOSTrequest api perform UrlEndPoint params result0 =
     (let payload = b64_groups params;
          signature = snd (getHmacSha384 (secretKey api) payload []);
          req = \<lparr>httpHeaders =
                    [c_str (''X-BFX-APIKEY:'' @ accessKey api),
                     ''X-BFX-PAYLOAD:'' @ payload,
                     ''X-BFX-SIGNATURE:'' @ signature],
                 postFields = [newline], timeout = 30,
                 url = c_str (APIurl api @ UrlEndPoint)\<rparr>
      in Inr \<lparr>returned = fst (perform req), sent = Some req,
               result = result0 @ snd (perform req)\<rparr>)"
proof -
  have p: "c_str (''X-BFX-PAYLOAD:'' @ b64_groups params) = ''X-BFX-PAYLOAD:'' @ b64_groups params"
    using header_names_no_NUL(2) payload_no_NUL by (rule c_str_prefixed)
  have s: "c_str (''X-BFX-SIGNATURE:'' @ snd (getHmacSha384 (secretKey api) (b64_groups params) []))
      = ''X-BFX-SIGNATURE:'' @ snd (getHmacSha384 (secretKey api) (b64_groups params) [])"
    using header_names_no_NUL(3) signature_no_NUL by (rule c_str_prefixed)
  show ?thesis
    using assms
    by (simp only: DoPOSTrequest_def getBase64_within if_True sum.case prod.case Let_def
        append_Nil snd_conv p s split_def)
qed

lemma DoPOSTrequest_no_handle:
  "\<not> curlPOST api \<Longrightarrow>
   DoPOSTrequest api perform UrlEndPoint params result0 =
     Inr \<lparr>returned = 1, sent = None, result = result0\<rparr>"
  by (simp add: DoPOSTrequest_def)

lemma DoPOSTrequest_overrun:
  "curlPOST api \<Longrightarrow> buffer_size < length params \<Longrightarrow>
   DoPOSTrequest api perform UrlEndPoint params result0 = Inl (StackBufferOverrun buffer_size)"
  by (simp add: DoPOSTrequest_def getBase64_beyond)

lemma b64_groups_braces: "b64_groups ''{}'' = ''e30=''"
  by code_simp

text \<open>
  C4, as the claim states it: for every request body the builder puts together the three
  header values, or fails with the encoder's \<open>PayloadTooLarge\<close>. The code has a third
  outcome, by its guard on the handle: without an initialised POST handle it encodes and
  signs nothing, hands nothing to the transport and returns \<^verbatim>\<open>curlERR\<close>.
\<close>

theorem DoPOSTrequest_without_handle:
  "DoPOSTrequest \<lparr>accessKey = ''AK'', secretKey = ''SK'', APIurl = ''https://api'',
                   curlPOST = False\<rparr>
     (\<lambda>req. (0, [])) ''/account_infos'' ''{}'' []
   = Inr \<lparr>returned = 1, sent = None, result = []\<rparr>
   \<and> bfxERR_value curlERR = 1"
  by (simp add: DoPOSTrequest_def)

text \<open>
  C4, amended. With an initialised POST handle and a request body of at most 1024 bytes,
  the builder base64-encodes the body, signs the encoded body (not the raw one) under the
  secret key, and hands the transport exactly three headers: the access key after
  \<^verbatim>\<open>X-BFX-APIKEY:\<close> (as a C string: the whole key when it holds no NUL byte), the
  encoded payload after \<^verbatim>\<open>X-BFX-PAYLOAD:\<close> and the signature after
  \<^verbatim>\<open>X-BFX-SIGNATURE:\<close>; what it returns is the transport's status code. Without a
  handle it builds nothing and returns \<^verbatim>\<open>curlERR\<close>.
\<close>

theorem DoPOSTrequest_headers:
  "(curlPOST api \<and> length params \<le> buffer_size \<longrightarrow>
     (\<exists>payload signature req.
        getBase64 params [] = Inr (0, payload)
        \<and> getHmacSha384 (secretKey api) payload [] = (0, signature)
        \<and> httpHeaders req =
            [c_str (''X-BFX-APIKEY:'' @ accessKey api),
             ''X-BFX-PAYLOAD:'' @ payload,
             ''X-BFX-SIGNATURE:'' @ signature]
        \<and> (NUL \<notin> set (accessKey api) \<longrightarrow>
             httpHeaders req ! 0 = ''X-BFX-APIKEY:'' @ accessKey api)
        \<and> DoPOSTrequest api perform UrlEndPoint params result0 =
            Inr \<lparr>returned = fst (perform req), sent = Some req,
                  result = result0 @ snd (perform req)\<rparr>))
   \<and> (\<not> curlPOST api \<longrightarrow>
        DoPOSTrequest api perform UrlEndPoint params result0 =
          Inr \<lparr>returned = bfxERR_value curlERR, sent = None, result = result0\<rparr>)"
proof (intro conjI impI)
  assume a: "curlPOST api \<and> length params \<le> buffer_size"
  define payload where "payload = b64_groups params"
  define signature where "signature = snd (getHmacSha384 (secretKey api) payload [])"
  define req where "req = \<lparr>httpHeaders =
                    [c_str (''X-BFX-APIKEY:'' @ accessKey api),
                     ''X-BFX-PAYLOAD:'' @ payload,
                     ''X-BFX-SIGNATURE:'' @ signature],
                 postFields = [newline], timeout = 30,
                 url = c_str (APIurl api @ UrlEndPoint)\<rparr>"
  have 1: "getBase64 params [] = Inr (0, payload)"
    using a by (simp add: getBase64_within payload_def)
  have 2: "getHmacSha384 (secretKey api) payload [] = (0, signature)"
    by (simp add: signature_def getHmacSha384_eq)
  have 3: "httpHeaders req =
            [c_str (''X-BFX-APIKEY:'' @ accessKey api),
             ''X-BFX-PAYLOAD:'' @ payload,
             ''X-BFX-SIGNATURE:'' @ signature]"
    by (simp add: req_def)
  have 4: "NUL \<notin> set (accessKey api) \<longrightarrow>
             httpHeaders req ! 0 = ''X-BFX-APIKEY:'' @ accessKey api"
    using c_str_prefixed [OF header_names_no_NUL(1), of "accessKey api"]
    by (simp add: req_def)
  have 5: "DoPOSTrequest api perform UrlEndPoint params result0 =
            Inr \<lparr>returned = fst (perform req), sent = Some req,
                  result = result0 @ snd (perform req)\<rparr>"
    using a DoPOSTrequest_built [of api params perform UrlEndPoint result0]
    by (simp add: Let_def payload_def signature_def req_def)
  from 1 2 3 4 5 show "\<exists>payload signature req.
        getBase64 params [] = Inr (0, payload)
        \<and> getHmacSha384 (secretKey api) payload [] = (0, signature)
        \<and> httpHeaders req =
            [c_str (''X-BFX-APIKEY:'' @ accessKey api),
             ''X-BFX-PAYLOAD:'' @ payload,
             ''X-BFX-SIGNATURE:'' @ signature]
        \<and> (NUL \<notin> set (accessKey api) \<longrightarrow>
             httpHeaders req ! 0 = ''X-BFX-APIKEY:'' @ accessKey api)
        \<and> DoPOSTrequest api perform UrlEndPoint params result0 =
            Inr \<lparr>returned = fst (perform req), sent = Some req,
                  result = result0 @ snd (perform req)\<rparr>"
    by blast
next
  assume "\<not> curlPOST api"
  then show "DoPOSTrequest api perform UrlEndPoint params result0 =
          Inr \<lparr>returned = bfxERR_value curlERR, sent = None, result = result0\<rparr>"
    by (simp add: DoPOSTrequest_def)
qed

theorem DoPOSTrequest_headers_witness:
  "curlPOST \<lparr>accessKey = ''AK'', secretKey = ''SK'', APIurl = ''https://api'', curlPOST = True\<rparr>
   \<and> length ''{}'' \<le> buffer_size
   \<and> NUL \<notin> set ''AK''
   \<and> (\<exists>req.
         httpHeaders req =
           [''X-BFX-APIKEY:AK'', ''X-BFX-PAYLOAD:e30='',
            ''X-BFX-SIGNATURE:'' @ snd (getHmacSha384 ''SK'' ''e30='' [])]
         \<and> DoPOSTrequest
              \<lparr>accessKey = ''AK'', secretKey = ''SK'', APIurl = ''https://api'',
                curlPOST = True\<rparr>
              (\<lambda>req. (0, ''[]'')) ''/account_infos'' ''{}'' []
            = Inr \<lparr>returned = 0, sent = Some req, result = ''[]''\<rparr>)"
proof -
  let ?api = "\<lparr>accessKey = ''AK'', secretKey = ''SK'', APIurl = ''https://api'', curlPOST = True\<rparr>"
  have h: "curlPOST ?api \<and> length ''{}'' \<le> buffer_size"
    by (simp add: buffer_size_def)
  have n: "NUL \<notin> set ''AK''"
    by (simp add: NUL_def)
  have e: "getBase64 ''{}'' [] = Inr (0, ''e30='')"
    using h getBase64_within [of "''{}''" "[]"] b64_groups_braces
    by (simp del: b64_groups.simps)
  have k: "c_str (''X-BFX-APIKEY:'' @ ''AK'') = ''X-BFX-APIKEY:AK''"
    by (simp add: c_str_def NUL_def)
  from DoPOSTrequest_headers [of ?api "''{}''" "\<lambda>req. (0, ''[]'')" "''/account_infos''" "[]"] h
  obtain payload signature req where
    1: "getBase64 ''{}'' [] = Inr (0, payload)" and
    2: "getHmacSha384 ''SK'' payload [] = (0, signature)" and
    3: "httpHeaders req = [c_str (''X-BFX-APIKEY:'' @ ''AK''),
             ''X-BFX-PAYLOAD:'' @ payload, ''X-BFX-SIGNATURE:'' @ signature]" and
    5: "DoPOSTrequest ?api (\<lambda>req. (0, ''[]'')) ''/account_infos'' ''{}'' [] =
            Inr \<lparr>returned = 0, sent = Some req, result = ''[]''\<rparr>"
    by auto
  from 1 e have p: "payload = ''e30=''"
    by simp
  from 2 p have s: "signature = snd (getHmacSha384 ''SK'' ''e30='' [])"
    by simp
  from 3 have "httpHeaders req =
           [''X-BFX-APIKEY:AK'', ''X-BFX-PAYLOAD:e30='',
            ''X-BFX-SIGNATURE:'' @ snd (getHmacSha384 ''SK'' ''e30='' [])]"
    unfolding k p s by simp
  with 5 h n show ?thesis
    by blast
qed


section \<open>Properties of the decoder\<close>

lemmas reader_defs =
  Parse_def c_str_def NUL_def reader_step_def reader_end_def value_start_def after_value_def
  after_end_def value_event_def close_event_def string_step_def number_step_def number_end_def
  number_event_def codepoint_done_def utf8_encode_def is_ws_def is_digit_def is_exp_def
  digit_val_def hex_val_def escape_char_def

lemmas decoder_defs =
  jsonStrToUset_def validate_def validator_init_def handler_init_def
  StartArray_def String_def EndArray_def Default_def

lemma char_of_zero: "char_of (0::nat) = CHR 0x00"
  by code_simp

lemma decode_number_element:
  \<open>jsonStrToUset {''old''} ''["a", 1, "b"]'' =
     \<lparr>status = jsonStrToUSetError, uSet = {''old''},
      cerr = [ParseErrorLine 6 kParseErrorTermination, InvalidKeywordLine ''type'']\<rparr>\<close>
  by (simp add: reader_defs decoder_defs)

lemma collected_before_number:
  \<open>handlerUSet (outputHandler (snd (Parse validate (validator_init handler_init) ''["a", 1, "b"]'')))
     = {''a''}\<close>
  by (simp add: reader_defs decoder_defs)

lemma decode_duplicates:
  \<open>jsonStrToUset {} ''["a","b","a"]'' = \<lparr>status = noError, uSet = {''a'', ''b''}, cerr = []\<rparr>\<close>
  by (simp add: reader_defs decoder_defs insert_commute)

lemma decode_truncated:
  \<open>jsonStrToUset {} ''["a"'' =
     \<lparr>status = jsonStrToUSetError, uSet = {},
      cerr = [ParseErrorLine 4 kParseErrorArrayMissCommaOrSquareBracket]\<rparr>\<close>
  by (simp add: reader_defs decoder_defs)

lemma decode_object:
  \<open>jsonStrToUset {} ''{"a":"b"}'' =
     \<lparr>status = jsonStrToUSetError, uSet = {},
      cerr = [ParseErrorLine 1 kParseErrorTermination, InvalidKeywordLine ''type'']\<rparr>\<close>
  by (simp add: reader_defs decoder_defs)

lemma jsonStrToUset_cases:
  "jsonStrToUset uSet0 jsonStr =
     (let p = Parse validate (validator_init handler_init) jsonStr in
      if fst (fst p) \<noteq> kParseErrorNone then
        \<lparr>status = jsonStrToUSetError, uSet = uSet0,
         cerr = ParseErrorLine (snd (fst p)) (fst (fst p))
                # (if \<not> valid (snd p) then [InvalidKeywordLine (invalidKeyword (snd p))] else [])\<rparr>
      else \<lparr>status = noError, uSet = handlerUSet (outputHandler (snd p)), cerr = []\<rparr>)"
  by (simp add: jsonStrToUset_def Let_def split: prod.splits)

subsection \<open>The handler's state along a run of the reader\<close>

lemma answersD_True:
  assumes "answers P Q hf" "P h" "hf h ev = (True, h')"
  shows "P h'"
proof -
  from assms(1,2) have "fst (hf h ev) \<longrightarrow> P (snd (hf h ev))"
    unfolding answers_def by blast
  with assms(3) show ?thesis by simp
qed

lemma answersD_False:
  assumes "answers P Q hf" "P h" "hf h ev = (False, h')"
  shows "Q h'"
proof -
  from assms(1,2) have "\<not> fst (hf h ev) \<longrightarrow> Q (snd (hf h ev))"
    unfolding answers_def by blast
  with assms(3) show ?thesis by simp
qed

lemma step_ok_Cont [simp]: "step_ok P Q (Cont m stack h) = P h"
  by (simp add: step_ok_def)

lemma step_ok_Stop_Term [simp]: "step_ok P Q (Stop kParseErrorTermination off h) = Q h"
  by (simp add: step_ok_def)

lemma step_ok_Stop_syntax:
  "code \<noteq> kParseErrorNone \<Longrightarrow> code \<noteq> kParseErrorTermination \<Longrightarrow>
   step_ok P Q (Stop code off h) = P h"
  by (simp add: step_ok_def)

lemma value_event_ok:
  assumes "answers P Q hf" "P h"
  shows "step_ok P Q (value_event hf off stack h ev)"
proof (cases "hf h ev")
  case (Pair ok h')
  show ?thesis
  proof (cases ok)
    case True
    with Pair have "hf h ev = (True, h')" by simp
    with assms have "P h'" by (rule answersD_True)
    with Pair True show ?thesis by (simp add: value_event_def)
  next
    case False
    with Pair have "hf h ev = (False, h')" by simp
    with assms have "Q h'" by (rule answersD_False)
    with Pair False show ?thesis by (simp add: value_event_def)
  qed
qed

lemma close_event_ok:
  assumes "answers P Q hf" "P h"
  shows "step_ok P Q (close_event hf pos stack h)"
proof (cases stack)
  case Nil
  with assms show ?thesis by (simp add: close_event_def step_ok_Stop_syntax)
next
  case (Cons f fs)
  with assms show ?thesis
    by (cases f) (simp_all add: close_event_def value_event_ok)
qed

lemma emit_ok:
  assumes "answers P Q hf" "P h"
  shows "step_ok P Q (case hf h ev of (True, h') \<Rightarrow> Cont m stack h'
                       | (False, h') \<Rightarrow> Stop kParseErrorTermination off h')"
proof (cases "hf h ev")
  case (Pair ok h')
  show ?thesis
  proof (cases ok)
    case True
    with Pair have "hf h ev = (True, h')" by simp
    with assms have "P h'" by (rule answersD_True)
    with Pair True show ?thesis by simp
  next
    case False
    with Pair have "hf h ev = (False, h')" by simp
    with assms have "Q h'" by (rule answersD_False)
    with Pair False show ?thesis by simp
  qed
qed

lemma value_start_ok:
  assumes "answers P Q hf" "P h"
  shows "step_ok P Q (value_start hf pos stack h c)"
  using assms by (simp add: value_start_def emit_ok step_ok_Stop_syntax)

lemma after_value_ok:
  assumes "answers P Q hf" "P h"
  shows "step_ok P Q (after_value hf pos stack h c)"
  using assms
  by (simp add: after_value_def close_event_ok step_ok_Stop_syntax split: list.splits frame.splits)

lemma number_finished_ok:
  assumes "answers P Q hf" "P h"
  shows "step_ok P Q (case number_end hf start neg v sub stack h of
                        Cont m stack' h' \<Rightarrow> after_value hf pos stack' h' c
                      | Stop code off h' \<Rightarrow> Stop code off h')"
proof -
  have ne: "step_ok P Q (number_end hf start neg v sub stack h)"
    using assms by (simp add: number_end_def value_event_ok)
  show ?thesis
  proof (cases "number_end hf start neg v sub stack h")
    case (Cont m stack' h')
    with ne have "P h'" by simp
    with assms(1) have "step_ok P Q (after_value hf pos stack' h' c)"
      by (rule after_value_ok)
    with Cont show ?thesis by simp
  next
    case (Stop code off h')
    with ne show ?thesis by simp
  qed
qed

lemma number_step_ok:
  assumes "answers P Q hf" "P h"
  shows "step_ok P Q (number_step hf pos start neg v sub stack h c)"
  using assms
  by (cases sub)
    (simp_all add: number_step_def Let_def step_ok_Stop_syntax number_finished_ok)

lemma codepoint_done_ok:
  assumes "P h"
  shows "step_ok P Q (codepoint_done isKey acc off cp high stack h)"
  using assms by (simp add: codepoint_done_def step_ok_Stop_syntax split: option.splits)

lemma string_step_ok:
  assumes "answers P Q hf" "P h"
  shows "step_ok P Q (string_step hf pos isKey acc sub stack h c)"
  using assms
  by (cases sub)
    (simp_all add: string_step_def emit_ok value_event_ok codepoint_done_ok step_ok_Stop_syntax
      split: option.splits)

lemma reader_step_ok:
  assumes "answers P Q hf" "P h"
  shows "step_ok P Q (reader_step hf pos m stack h c)"
  using assms
  by (cases m)
    (simp_all add: reader_step_def value_start_ok close_event_ok after_value_ok value_event_ok
      string_step_ok number_step_ok step_ok_Stop_syntax split: list.splits)

lemma after_end_ok: "P h \<Longrightarrow> result_ok P Q (after_end pos stack h)"
  by (simp add: after_end_def result_ok_def split: list.splits frame.splits)

lemma reader_end_ok:
  assumes "answers P Q hf" "P h"
  shows "result_ok P Q (reader_end hf pos m stack h)"
proof (cases m)
  case (MNumber start neg v sub)
  have ne: "step_ok P Q (number_end hf start neg v sub stack h)"
    using assms by (simp add: number_end_def value_event_ok)
  show ?thesis
  proof (cases "number_end hf start neg v sub stack h")
    case (Cont m' stack' h')
    with ne have "P h'" by simp
    then have "result_ok P Q (after_end pos stack' h')" by (rule after_end_ok)
    with Cont MNumber assms(2) show ?thesis
      by (simp add: reader_end_def result_ok_def)
  next
    case (Stop code off h')
    with ne MNumber assms(2) show ?thesis
      by (simp add: reader_end_def result_ok_def step_ok_def)
  qed
next
  case (MString isKey acc sub)
  with assms(2) show ?thesis
    by (cases sub) (simp_all add: reader_end_def result_ok_def)
next
  case MAfterValue
  with assms(2) show ?thesis
    by (simp add: reader_end_def after_end_ok)
qed (use assms(2) in \<open>simp_all add: reader_end_def result_ok_def\<close>)

lemma reader_run_ok:
  assumes "answers P Q hf"
  shows "P h \<Longrightarrow> result_ok P Q (reader_run hf pos m stack h cs)"
proof (induction cs arbitrary: pos m stack h)
  case Nil
  with assms show ?case by (simp add: reader_end_ok)
next
  case (Cons c cs)
  from assms Cons.prems have so: "step_ok P Q (reader_step hf pos m stack h c)"
    by (rule reader_step_ok)
  show ?case
  proof (cases "reader_step hf pos m stack h c")
    case (Cont m' stack' h')
    with so have "P h'" by simp
    then have "result_ok P Q (reader_run hf (Suc pos) m' stack' h' cs)"
      by (rule Cons.IH)
    with Cont show ?thesis by simp
  next
    case (Stop code off h')
    with so show ?thesis by (simp add: result_ok_def step_ok_def)
  qed
qed

lemma validate_rejects:
  "validating v \<Longrightarrow> schema_step (ctx v) ev = None \<Longrightarrow>
   \<not> fst (validate v ev) \<and> violated (snd (validate v ev))"
  by (simp add: validate_def validating_def violated_def)

lemma validate_accepts:
  assumes "validating v" "schema_step (ctx v) ev = Some c'"
  shows "fst (validate v ev) \<and> validating (snd (validate v ev))"
proof (cases "ctx v")
  case AtRoot
  with assms(2) have ev: "ev = sax_StartArray" and c: "c' = InItems"
    by (cases ev; simp)+
  from assms(1) AtRoot have "state (outputHandler v) = kExpectArrayStart"
    by (simp add: validating_def in_step_def)
  with assms(1) AtRoot ev c show ?thesis
    by (simp add: validate_def validating_def in_step_def StartArray_def)
next
  case InItems
  from assms(1) InItems have st: "state (outputHandler v) = kExpectValueOrArrayEnd"
    by (simp add: validating_def in_step_def)
  from assms(2) InItems consider s where "ev = sax_String s" "c' = InItems"
    | n where "ev = sax_EndArray n" "c' = AfterRoot"
    by (cases ev) simp_all
  then show ?thesis
  proof cases
    case 1
    with assms(1) InItems st show ?thesis
      by (simp add: validate_def validating_def in_step_def String_def)
  next
    case 2
    with assms(1) InItems st show ?thesis
      by (simp add: validate_def validating_def in_step_def EndArray_def)
  qed
next
  case AfterRoot
  with assms(2) show ?thesis by simp
qed

lemma validate_answers: "answers validating violated validate"
  unfolding answers_def
proof (intro allI impI conjI)
  fix v ev
  assume v: "validating v" and a: "fst (validate v ev)"
  show "validating (snd (validate v ev))"
  proof (cases "schema_step (ctx v) ev")
    case None
    with v a validate_rejects show ?thesis by blast
  next
    case (Some c')
    with v validate_accepts show ?thesis by blast
  qed
next
  fix v ev
  assume v: "validating v" and a: "\<not> fst (validate v ev)"
  show "violated (snd (validate v ev))"
  proof (cases "schema_step (ctx v) ev")
    case None
    with v validate_rejects show ?thesis by blast
  next
    case (Some c')
    with v a validate_accepts show ?thesis by blast
  qed
qed

lemma validating_init: "validating (validator_init handler_init)"
  by (simp add: validating_def in_step_def validator_init_def handler_init_def)

lemma Parse_validate_ok:
  "result_ok validating violated (Parse validate (validator_init handler_init) jsonStr)"
  unfolding Parse_def using validate_answers validating_init by (rule reader_run_ok)

lemma Parse_validate_terminated:
  assumes "fst (fst (Parse validate (validator_init handler_init) jsonStr)) = kParseErrorTermination"
  shows "\<not> valid (snd (Parse validate (validator_init handler_init) jsonStr))"
    and "invalidKeyword (snd (Parse validate (validator_init handler_init) jsonStr)) = ''type''"
  using Parse_validate_ok [of jsonStr] assms by (simp_all add: result_ok_def violated_def)

lemma Parse_validate_not_terminated:
  assumes "fst (fst (Parse validate (validator_init handler_init) jsonStr)) \<noteq> kParseErrorTermination"
  shows "valid (snd (Parse validate (validator_init handler_init) jsonStr))"
  using Parse_validate_ok [of jsonStr] assms by (simp add: result_ok_def validating_def)

subsection \<open>The decoder\<close>

text \<open>
  C5. For every text, \<^verbatim>\<open>jsonStrToUset\<close> returns \<^verbatim>\<open>noError\<close> or
  \<^verbatim>\<open>jsonStrToUSetError\<close>. When it fails, the caller's set is what it was before the
  call, whatever the handler had collected; when it succeeds, the whole text was parsed
  and validated and the caller's set is the handler's.
\<close>

theorem jsonStrToUset_failure_keeps_set:
  "(status (jsonStrToUset uSet0 jsonStr) = noError
      \<or> status (jsonStrToUset uSet0 jsonStr) = jsonStrToUSetError)
   \<and> (status (jsonStrToUset uSet0 jsonStr) \<noteq> noError \<longrightarrow>
        uSet (jsonStrToUset uSet0 jsonStr) = uSet0)
   \<and> (status (jsonStrToUset uSet0 jsonStr) = noError \<longrightarrow>
        fst (fst (Parse validate (validator_init handler_init) jsonStr)) = kParseErrorNone
        \<and> uSet (jsonStrToUset uSet0 jsonStr)
            = handlerUSet (outputHandler (snd (Parse validate (validator_init handler_init) jsonStr))))"
  by (simp add: jsonStrToUset_cases Let_def)

theorem jsonStrToUset_failure_keeps_set_witness:
  \<open>status (jsonStrToUset {''old''} ''["a", 1, "b"]'') \<noteq> noError
   \<and> uSet (jsonStrToUset {''old''} ''["a", 1, "b"]'') = {''old''}
   \<and> handlerUSet (outputHandler
         (snd (Parse validate (validator_init handler_init) ''["a", 1, "b"]''))) = {''a''}\<close>
proof -
  have s: \<open>status (jsonStrToUset {''old''} ''["a", 1, "b"]'') \<noteq> noError\<close>
    unfolding decode_number_element by simp
  from jsonStrToUset_failure_keeps_set [of "{''old''}" \<open>''["a", 1, "b"]''\<close>] s
  have \<open>uSet (jsonStrToUset {''old''} ''["a", 1, "b"]'') = {''old''}\<close>
    by blast
  with s collected_before_number show ?thesis
    by blast
qed

text \<open>
  C6, as the claim states it: a failure comes back as \<open>SchemaViolation\<close> with offset and
  keyword or as \<open>MalformedJson\<close> with offset, and the caller can tell the two apart. In
  the code a truncated text and a text whose top-level value is an object give the caller
  the same status and the same set; the offsets and the keyword are lines on \<^verbatim>\<open>cerr\<close>.
\<close>

theorem failure_kinds_same_status:
  \<open>status (jsonStrToUset {} ''["a"'') = status (jsonStrToUset {} ''{"a":"b"}'')
   \<and> uSet (jsonStrToUset {} ''["a"'') = uSet (jsonStrToUset {} ''{"a":"b"}'')
   \<and> cerr (jsonStrToUset {} ''["a"'') = [ParseErrorLine 4 kParseErrorArrayMissCommaOrSquareBracket]
   \<and> cerr (jsonStrToUset {} ''{"a":"b"}'')
       = [ParseErrorLine 1 kParseErrorTermination, InvalidKeywordLine ''type'']\<close>
  unfolding decode_truncated decode_object by simp

text \<open>
  C6, amended. For every text, \<^verbatim>\<open>jsonStrToUset\<close> has one of three outcomes. The text
  is not valid JSON: it returns \<^verbatim>\<open>jsonStrToUSetError\<close>, the caller's set is unchanged,
  and the parse error with its offset is the one line written to \<^verbatim>\<open>cerr\<close>. The text
  violates the schema: the validator ends the parse, and it returns the same
  \<^verbatim>\<open>jsonStrToUSetError\<close>, the caller's set is unchanged, and \<^verbatim>\<open>cerr\<close> gets the
  termination with its offset and the violated keyword \<^verbatim>\<open>type\<close>. Otherwise it
  returns \<^verbatim>\<open>noError\<close> and the decoded set. The two kinds of failure differ on
  \<^verbatim>\<open>cerr\<close> only; neither offset nor keyword is returned to the caller.
\<close>

theorem jsonStrToUset_one_error_status:
  "(\<exists>off code.
      code \<noteq> kParseErrorNone \<and> code \<noteq> kParseErrorTermination
      \<and> fst (Parse validate (validator_init handler_init) jsonStr) = (code, off)
      \<and> jsonStrToUset uSet0 jsonStr =
          \<lparr>status = jsonStrToUSetError, uSet = uSet0, cerr = [ParseErrorLine off code]\<rparr>)
   \<or> (\<exists>off.
        fst (Parse validate (validator_init handler_init) jsonStr) = (kParseErrorTermination, off)
        \<and> jsonStrToUset uSet0 jsonStr =
            \<lparr>status = jsonStrToUSetError, uSet = uSet0,
             cerr = [ParseErrorLine off kParseErrorTermination, InvalidKeywordLine ''type'']\<rparr>)
   \<or> (fst (fst (Parse validate (validator_init handler_init) jsonStr)) = kParseErrorNone
       \<and> jsonStrToUset uSet0 jsonStr =
           \<lparr>status = noError,
            uSet = handlerUSet (outputHandler
                     (snd (Parse validate (validator_init handler_init) jsonStr))),
            cerr = []\<rparr>)"
proof -
  define p where "p = Parse validate (validator_init handler_init) jsonStr"
  have fp: "fst p = (fst (fst p), snd (fst p))"
    by simp
  consider (accepted) "fst (fst p) = kParseErrorNone"
    | (terminated) "fst (fst p) = kParseErrorTermination"
    | (malformed) "fst (fst p) \<noteq> kParseErrorNone" "fst (fst p) \<noteq> kParseErrorTermination"
    by blast
  then show ?thesis
  proof cases
    case accepted
    then have "jsonStrToUset uSet0 jsonStr =
        \<lparr>status = noError, uSet = handlerUSet (outputHandler (snd p)), cerr = []\<rparr>"
      by (simp add: jsonStrToUset_cases Let_def p_def)
    with accepted show ?thesis
      unfolding p_def by blast
  next
    case terminated
    then have nv: "\<not> valid (snd p)" and kw: "invalidKeyword (snd p) = ''type''"
      unfolding p_def by (rule Parse_validate_terminated)+
    from terminated nv kw have "jsonStrToUset uSet0 jsonStr =
        \<lparr>status = jsonStrToUSetError, uSet = uSet0,
         cerr = [ParseErrorLine (snd (fst p)) kParseErrorTermination, InvalidKeywordLine ''type'']\<rparr>"
      by (simp add: jsonStrToUset_cases Let_def p_def)
    moreover from terminated fp have "fst p = (kParseErrorTermination, snd (fst p))"
      by simp
    ultimately show ?thesis
      unfolding p_def by blast
  next
    case malformed
    from malformed(2) have "valid (snd p)"
      unfolding p_def by (rule Parse_validate_not_terminated)
    with malformed have "jsonStrToUset uSet0 jsonStr =
        \<lparr>status = jsonStrToUSetError, uSet = uSet0,
         cerr = [ParseErrorLine (snd (fst p)) (fst (fst p))]\<rparr>"
      by (simp add: jsonStrToUset_cases Let_def p_def)
    with malformed fp show ?thesis
      unfolding p_def by blast
  qed
qed

lemma c_str_no_NUL: "NUL \<notin> set (c_str s)"
  unfolding c_str_def by (induction s) auto

lemma handle_NUL_free:
  assumes "\<forall>s \<in> handlerUSet h. NUL \<notin> set s"
  shows "\<forall>s \<in> handlerUSet (snd (handle h ev)). NUL \<notin> set s"
  using assms c_str_no_NUL
  by (cases ev; cases "state h") (auto simp: decoder_defs)

lemma validate_outputHandler:
  "schema_step (ctx v) ev = Some c' \<Longrightarrow> valid v \<Longrightarrow>
   outputHandler (snd (validate v ev)) = snd (handle (outputHandler v) ev)"
  by (simp add: validate_def split: prod.splits)

lemma validate_answers_NUL_free: "answers NUL_free violated validate"
  unfolding answers_def
proof (intro allI impI conjI)
  fix v ev
  assume v: "NUL_free v" and a: "fst (validate v ev)"
  from v have vv: "validating v" and nf: "\<forall>s \<in> handlerUSet (outputHandler v). NUL \<notin> set s"
    by (simp_all add: NUL_free_def)
  from validate_answers vv a have 1: "validating (snd (validate v ev))"
    unfolding answers_def by blast
  from vv a validate_rejects obtain c' where c: "schema_step (ctx v) ev = Some c'"
    by (cases "schema_step (ctx v) ev") blast+
  from vv have "valid v" by (simp add: validating_def)
  with c have "outputHandler (snd (validate v ev)) = snd (handle (outputHandler v) ev)"
    by (rule validate_outputHandler)
  with nf handle_NUL_free have "\<forall>s \<in> handlerUSet (outputHandler (snd (validate v ev))). NUL \<notin> set s"
    by simp
  with 1 show "NUL_free (snd (validate v ev))"
    by (simp add: NUL_free_def)
next
  fix v ev
  assume v: "NUL_free v" and a: "\<not> fst (validate v ev)"
  from v have "validating v" by (simp add: NUL_free_def)
  with validate_answers a show "violated (snd (validate v ev))"
    unfolding answers_def by blast
qed

lemma decoded_strings_NUL_free:
  assumes "status (jsonStrToUset uSet0 jsonStr) = noError"
  shows "\<forall>s \<in> uSet (jsonStrToUset uSet0 jsonStr). NUL \<notin> set s"
proof -
  have init: "NUL_free (validator_init handler_init)"
    using validating_init by (simp add: NUL_free_def validator_init_def handler_init_def)
  have "result_ok NUL_free violated (Parse validate (validator_init handler_init) jsonStr)"
    unfolding Parse_def using validate_answers_NUL_free init by (rule reader_run_ok)
  moreover from assms
  have "fst (fst (Parse validate (validator_init handler_init) jsonStr)) = kParseErrorNone"
    by (simp add: jsonStrToUset_cases Let_def split: if_splits)
  ultimately have "NUL_free (snd (Parse validate (validator_init handler_init) jsonStr))"
    by (simp add: result_ok_def)
  moreover from assms
  have "uSet (jsonStrToUset uSet0 jsonStr)
      = handlerUSet (outputHandler (snd (Parse validate (validator_init handler_init) jsonStr)))"
    by (simp add: jsonStrToUset_cases Let_def split: if_splits)
  ultimately show ?thesis
    by (simp add: NUL_free_def)
qed

text \<open>
  C7. On a flat array of strings the decoder should return the strings of the array. The
  handler builds each element from the character pointer alone, so a string with an
  escaped NUL (\<^verbatim>\<open>\u0000\<close>) is cut at the NUL: the reader delivers the three-byte string
  and the decoder returns the set that holds \<^verbatim>\<open>a\<close>; no decoded set ever holds a
  string with a NUL byte. The example of the claim decodes as the claim says.
\<close>

theorem decode_embedded_NUL:
  \<open>Parse collect [] (''["a'' @ [CHR 0x5C] @ ''u0000b"]'') =
     ((kParseErrorNone, 0), [sax_StartArray, sax_String [CHR ''a'', NUL, CHR ''b''], sax_EndArray 1])
   \<and> jsonStrToUset {} (''["a'' @ [CHR 0x5C] @ ''u0000b"]'')
       = \<lparr>status = noError, uSet = {''a''}, cerr = []\<rparr>
   \<and> jsonStrToUset {} ''["a","b","a"]'' = \<lparr>status = noError, uSet = {''a'', ''b''}, cerr = []\<rparr>\<close>
  by (simp add: reader_defs decoder_defs collect_def char_of_zero insert_commute)

lemma feed_strings:
  "feed \<lparr>handlerUSet = S, state = kExpectValueOrArrayEnd\<rparr> (map sax_String ss @ [sax_EndArray n])
     = (True, \<lparr>handlerUSet = S \<union> c_str ` set ss, state = kExpectValueOrArrayEnd\<rparr>)"
proof (induction ss arbitrary: S)
  case Nil
  show ?case by (simp add: EndArray_def)
next
  case (Cons s ss)
  show ?case by (simp add: String_def Cons.IH)
qed

lemma feed_flat_array:
  "feed handler_init (sax_StartArray # map sax_String ss @ [sax_EndArray n])
     = (True, \<lparr>handlerUSet = c_str ` set ss, state = kExpectValueOrArrayEnd\<rparr>)"
  using feed_strings [of "{}" ss n] by (simp add: handler_init_def StartArray_def)

lemma handle_accept_state: "fst (handle h ev) \<Longrightarrow> state (snd (handle h ev)) = kExpectValueOrArrayEnd"
  by (cases ev; cases "state h") (simp_all add: decoder_defs)

lemma feed_no_second_array:
  "state h = kExpectValueOrArrayEnd \<Longrightarrow> fst (feed h evs) \<Longrightarrow> sax_StartArray \<notin> set evs"
proof (induction evs arbitrary: h)
  case Nil
  show ?case by simp
next
  case (Cons ev evs)
  from Cons.prems(2) have acc: "fst (handle h ev)"
    by (auto split: prod.splits bool.splits)
  with Cons.prems(2) have rest: "fst (feed (snd (handle h ev)) evs)"
    by (auto split: prod.splits bool.splits)
  from acc Cons.prems(1) have "ev \<noteq> sax_StartArray"
    by (auto simp: StartArray_def)
  moreover from acc have "state (snd (handle h ev)) = kExpectValueOrArrayEnd"
    by (rule handle_accept_state)
  then have "sax_StartArray \<notin> set evs"
    using rest by (rule Cons.IH)
  ultimately show ?case by simp
qed

lemma feed_one_array:
  assumes "fst (feed handler_init evs)"
  shows "length (filter (\<lambda>ev. ev = sax_StartArray) evs) \<le> 1"
proof (cases evs)
  case Nil
  then show ?thesis by simp
next
  case (Cons ev evs')
  from assms Cons have acc: "fst (handle handler_init ev)"
    by (auto split: prod.splits bool.splits)
  with assms Cons have rest: "fst (feed (snd (handle handler_init ev)) evs')"
    by (auto split: prod.splits bool.splits)
  from acc have "state (snd (handle handler_init ev)) = kExpectValueOrArrayEnd"
    by (rule handle_accept_state)
  then have "sax_StartArray \<notin> set evs'"
    using rest by (rule feed_no_second_array)
  then have "filter (\<lambda>ev. ev = sax_StartArray) evs' = []"
    by (auto simp: filter_empty_conv)
  with Cons show ?thesis by simp
qed

text \<open>
  The transitions of the handler as the code has them. In \<open>kExpectArrayStart\<close> an
  array-open is accepted and leads to \<open>kExpectValueOrArrayEnd\<close>. In
  \<open>kExpectValueOrArrayEnd\<close> a string is accepted and leaves the state as it is, and an
  array-close is accepted and changes nothing. Null, boolean, number, object-open,
  object-close, and array-open in \<open>kExpectValueOrArrayEnd\<close> are rejected and change
  nothing. An accepted event never leaves the handler in \<open>kExpectArrayStart\<close>, so a
  sequence of events that the handler accepts from its initial state has at most one
  array-open. The handler does not override \<^verbatim>\<open>Key\<close>, which the base class sends to
  \<^verbatim>\<open>String\<close>; a reader delivers a key only after an object-open that was accepted.
\<close>

lemma handle_transitions:
  "handle h sax_StartArray =
     (if state h = kExpectArrayStart then (True, h\<lparr>state := kExpectValueOrArrayEnd\<rparr>)
      else (False, h))
   \<and> handle h (sax_String s) =
     (if state h = kExpectValueOrArrayEnd
      then (True, h\<lparr>handlerUSet := insert (c_str s) (handlerUSet h)\<rparr>) else (False, h))
   \<and> handle h (sax_Key s) = handle h (sax_String s)
   \<and> handle h (sax_EndArray n) = (state h = kExpectValueOrArrayEnd, h)
   \<and> handle h sax_Null = (False, h)
   \<and> handle h (sax_Bool b) = (False, h)
   \<and> handle h (sax_Int i) = (False, h)
   \<and> handle h (sax_Uint u) = (False, h)
   \<and> handle h (sax_Int64 i) = (False, h)
   \<and> handle h (sax_Uint64 u) = (False, h)
   \<and> handle h sax_Double = (False, h)
   \<and> handle h sax_StartObject = (False, h)
   \<and> handle h (sax_EndObject n) = (False, h)
   \<and> (fst (handle h ev) \<longrightarrow> state (snd (handle h ev)) = kExpectValueOrArrayEnd)
   \<and> (fst (feed handler_init evs) \<longrightarrow>
        length (filter (\<lambda>ev. ev = sax_StartArray) evs) \<le> 1)"
proof -
  have a: "fst (handle h ev) \<longrightarrow> state (snd (handle h ev)) = kExpectValueOrArrayEnd"
    using handle_accept_state by blast
  have b: "fst (feed handler_init evs) \<longrightarrow>
        length (filter (\<lambda>ev. ev = sax_StartArray) evs) \<le> 1"
    using feed_one_array by blast
  have c: "handle h sax_StartArray =
     (if state h = kExpectArrayStart then (True, h\<lparr>state := kExpectValueOrArrayEnd\<rparr>)
      else (False, h))"
    by (cases "state h") (simp_all add: StartArray_def)
  have d: "handle h (sax_String s) =
     (if state h = kExpectValueOrArrayEnd
      then (True, h\<lparr>handlerUSet := insert (c_str s) (handlerUSet h)\<rparr>) else (False, h))"
    by (cases "state h") (simp_all add: String_def)
  have e: "handle h (sax_Key s) = handle h (sax_String s)"
    by simp
  have f: "handle h (sax_EndArray n) = (state h = kExpectValueOrArrayEnd, h)"
    by (simp add: EndArray_def)
  have g: "handle h sax_Null = (False, h)" "handle h (sax_Bool b) = (False, h)"
    "handle h (sax_Int i) = (False, h)" "handle h (sax_Uint u) = (False, h)"
    "handle h (sax_Int64 i) = (False, h)" "handle h (sax_Uint64 u) = (False, h)"
    "handle h sax_Double = (False, h)" "handle h sax_StartObject = (False, h)"
    "handle h (sax_EndObject n) = (False, h)"
    by (simp_all add: Default_def)
  show ?thesis
    by (intro conjI a b c d e f g)
qed

lemma handle_transitions_example:
  "fst (handle handler_init sax_StartArray)
   \<and> state (snd (handle handler_init sax_StartArray)) = kExpectValueOrArrayEnd
   \<and> fst (feed handler_init [sax_StartArray, sax_String ''a'', sax_String ''b'', sax_EndArray 2])
   \<and> length (filter (\<lambda>ev. ev = sax_StartArray)
        [sax_StartArray, sax_String ''a'', sax_String ''b'', sax_EndArray 2]) \<le> 1
   \<and> \<not> fst (feed handler_init [sax_StartArray, sax_String ''a'', sax_StartArray])"
proof -
  have 1: "fst (handle handler_init sax_StartArray)"
    by (simp add: decoder_defs)
  have 2: "fst (feed handler_init [sax_StartArray, sax_String ''a'', sax_String ''b'', sax_EndArray 2])"
    by (simp add: decoder_defs)
  have 3: "\<not> fst (feed handler_init [sax_StartArray, sax_String ''a'', sax_StartArray])"
    by (simp add: decoder_defs)
  from handle_transitions [where h = handler_init and ev = sax_StartArray] 1
  have 4: "state (snd (handle handler_init sax_StartArray)) = kExpectValueOrArrayEnd"
    by blast
  from handle_transitions
    [where evs = "[sax_StartArray, sax_String ''a'', sax_String ''b'', sax_EndArray 2]"] 2
  have 5: "length (filter (\<lambda>ev. ev = sax_StartArray)
        [sax_StartArray, sax_String ''a'', sax_String ''b'', sax_EndArray 2]) \<le> 1"
    by blast
  from 1 2 3 4 5 show ?thesis
    by blast
qed

text \<open>
  C8. In \<open>ExpectValueOrArrayEnd\<close> a string value should stay in that state and append
  the string to the result set. The handler's \<^verbatim>\<open>String\<close> builds the element from the
  character pointer alone (the same defect as in C7): attached to the reader on the array
  text with an escaped NUL, the handler accepts the three-byte string and the element it
  inserts is the string's first byte.
\<close>

theorem handler_inserts_cut_string:
  \<open>Parse handle handler_init (''["a'' @ [CHR 0x5C] @ ''u0000b"]'') =
     ((kParseErrorNone, 0), \<lparr>handlerUSet = {''a''}, state = kExpectValueOrArrayEnd\<rparr>)
   \<and> handle \<lparr>handlerUSet = {}, state = kExpectValueOrArrayEnd\<rparr>
         (sax_String [CHR ''a'', NUL, CHR ''b''])
       = (True, \<lparr>handlerUSet = {''a''}, state = kExpectValueOrArrayEnd\<rparr>)
   \<and> [CHR ''a'', NUL, CHR ''b''] \<noteq> ''a''\<close>
  by (simp add: reader_defs decoder_defs char_of_zero)

end
